theory Spec2Isabelle
  imports Main
begin

section \<open>The proxy's forwarding engine (src/mcp/shared/proxy.py)\<close>

text \<open>
  The module defines one context manager, \<open>mcp_proxy\<close>, and inside it the coroutine
  \<open>forward_messages\<close>, started once per direction. The coroutine reads items from a
  receive stream, applies an optional transform, sends the result on a send stream and
  reports failures to an optional callback. The embedding makes the callbacks and the
  send stream functions on an environment state \<open>'w\<close> (explicit state passing), gives every
  call a result that says how the call ended, and records the calls in the order they
  were made.
\<close>

subsection \<open>Exceptions and the ways a call can end\<close>

text \<open>
  The code tells exceptions apart only by class: \<open>except anyio.ClosedResourceError\<close> against
  \<open>except Exception\<close>. \<open>BrokenResourceError\<close> is what a send raises when the receiving end is
  gone; it is not a subclass of \<open>ClosedResourceError\<close>.
\<close>

datatype exn = ClosedResourceError | BrokenResourceError | OtherException string

text \<open>
  A call returns a value, raises an \<open>Exception\<close>, or is left by a \<open>BaseException\<close> that is
  not an \<open>Exception\<close> (the cancellation of the task, delivered at an \<open>await\<close>): no
  \<open>except Exception\<close> clause catches the last one.
\<close>

datatype 'a outcome = Returned 'a | Raised exn | Cancelled

subsection \<open>Streams, hooks and the error handler\<close>

text \<open>
  \<open>ReadStream = MemoryObjectReceiveStream[SessionMessage | Exception]\<close>: an item is a
  message or an exception value. The message type \<open>'m\<close> is opaque.
\<close>

datatype 'm item = SessionMessage 'm | TransportError exn

text \<open>
  How the iteration over a receive stream ends after its last item: \<open>EndOfStream\<close> (turned
  into \<open>StopAsyncIteration\<close> by the stream, so the \<open>async for\<close> is left normally), an
  exception raised by the receive, or cancellation while waiting for the next item.
\<close>

datatype stream_end = EndOfStream | ReceiveRaised exn | ReceiveCancelled

type_synonym stream_id = nat

text \<open>
  A receive stream is its identity, the finite sequence of items it delivers and the way
  it ends. A send stream is its identity and its \<open>send\<close>, whose result depends on the
  environment (the stream may be open at one call and closed at the next).
\<close>

datatype 'm read_stream =
  ReadStream (rs_id: stream_id) (rs_items: "'m item list") (rs_end: stream_end)

datatype ('m, 'w) write_stream =
  WriteStream (ws_id: stream_id) (ws_send: "'m \<Rightarrow> 'w \<Rightarrow> unit outcome \<times> 'w")

text \<open>
  \<open>MessageTransformFn = Callable[[SessionMessage], Awaitable[SessionMessage | None]]\<close> and
  \<open>ErrorHandlerFn = Callable[[Exception], None]\<close>. Both are code of the caller: they may
  change the environment, and a call of either may raise.
\<close>

type_synonym ('m, 'w) transform_fn = "'m \<Rightarrow> 'w \<Rightarrow> 'm option outcome \<times> 'w"

type_synonym 'w error_handler = "exn \<Rightarrow> 'w \<Rightarrow> unit outcome \<times> 'w"

text \<open>
  The calls a forwarding task can make, each with its result. \<open>Close\<close> is the call that
  closes a stream (\<open>aclose\<close>, or leaving an \<open>async with\<close> on the stream).
\<close>

datatype 'm event =
    Receive stream_id
  | SendCall stream_id 'm "unit outcome"
  | HookCall 'm "'m option outcome"
  | OnError exn "unit outcome"
  | Close stream_id

text \<open>The result of a piece of code: how it ended, the calls it made, the environment after.\<close>

type_synonym ('m, 'w) result = "unit outcome \<times> 'm event list \<times> 'w"

fun prepend_events :: "'m event list \<Rightarrow> ('m, 'w) result \<Rightarrow> ('m, 'w) result" where
  "prepend_events evs (r, evs', w) = (r, evs @ evs', w)"

subsection \<open>forward_messages\<close>

text \<open>\<open>if onerror: onerror(exc)\<close>\<close>

fun call_onerror :: "'w error_handler option \<Rightarrow> exn \<Rightarrow> 'w \<Rightarrow> ('m, 'w) result" where
  "call_onerror None exc w = (Returned (), [], w)"
| "call_onerror (Some h) exc w = (case h exc w of (r, w') \<Rightarrow> (r, [OnError exc r], w'))"

text \<open>\<open>await write_stream.send(m)\<close>\<close>

fun send_message :: "('m, 'w) write_stream \<Rightarrow> 'm \<Rightarrow> 'w \<Rightarrow> ('m, 'w) result" where
  "send_message ws m w = (case ws_send ws m w of (r, w') \<Rightarrow> (r, [SendCall (ws_id ws) m r], w'))"

text \<open>
  The body of the inner \<open>try\<close> (lines 104 to 122) for one item. A \<open>continue\<close> is the result
  \<open>Returned ()\<close>.
\<close>

fun try_body ::
  "'w error_handler option \<Rightarrow> ('m, 'w) write_stream \<Rightarrow> ('m, 'w) transform_fn option \<Rightarrow>
   'm item \<Rightarrow> 'w \<Rightarrow> ('m, 'w) result" where
  "try_body onerror ws tf (TransportError exc) w = call_onerror onerror exc w"
| "try_body onerror ws None (SessionMessage m) w = send_message ws m w"
| "try_body onerror ws (Some f) (SessionMessage m) w =
     (case f m w of
        (Returned None, w1) \<Rightarrow> (Returned (), [HookCall m (Returned None)], w1)
      | (Returned (Some transformed), w1) \<Rightarrow>
          prepend_events [HookCall m (Returned (Some transformed))]
            (send_message ws transformed w1)
      | (Raised exc, w1) \<Rightarrow> (Raised exc, [HookCall m (Raised exc)], w1)
      | (Cancelled, w1) \<Rightarrow> (Cancelled, [HookCall m Cancelled], w1))"

text \<open>
  One iteration of the loop: the inner \<open>try\<close> with its \<open>except Exception as exc\<close> clause
  (lines 124 to 128). An exception raised by the handler inside the clause leaves the
  iteration.
\<close>

definition process_item ::
  "'w error_handler option \<Rightarrow> ('m, 'w) write_stream \<Rightarrow> ('m, 'w) transform_fn option \<Rightarrow>
   'm item \<Rightarrow> 'w \<Rightarrow> ('m, 'w) result" where
  "process_item onerror ws tf x w =
     (case try_body onerror ws tf x w of
        (Raised exc, evs, w1) \<Rightarrow> prepend_events evs (call_onerror onerror exc w1)
      | (r, evs, w1) \<Rightarrow> (r, evs, w1))"

text \<open>What the \<open>async for\<close> does when the stream delivers no further item.\<close>

fun end_outcome :: "stream_end \<Rightarrow> unit outcome" where
  "end_outcome EndOfStream = Returned ()"
| "end_outcome (ReceiveRaised exc) = Raised exc"
| "end_outcome ReceiveCancelled = Cancelled"

text \<open>
  \<open>async for message in read_stream\<close> (line 102): each iteration receives, then runs the
  body; anything but a normal end of the body leaves the loop.
\<close>

fun forward_loop ::
  "'w error_handler option \<Rightarrow> stream_id \<Rightarrow> ('m, 'w) write_stream \<Rightarrow>
   ('m, 'w) transform_fn option \<Rightarrow> 'm item list \<Rightarrow> stream_end \<Rightarrow> 'w \<Rightarrow> ('m, 'w) result" where
  "forward_loop onerror rid ws tf [] fin w = (end_outcome fin, [Receive rid], w)"
| "forward_loop onerror rid ws tf (x # xs) fin w =
     (case process_item onerror ws tf x w of
        (Returned u, evs, w1) \<Rightarrow>
          prepend_events (Receive rid # evs) (forward_loop onerror rid ws tf xs fin w1)
      | (r, evs, w1) \<Rightarrow> (r, Receive rid # evs, w1))"

text \<open>
  The coroutine: the loop inside the outer \<open>try\<close> with its two clauses,
  \<open>except anyio.ClosedResourceError\<close> (lines 130 to 132) and \<open>except Exception as exc\<close>
  (lines 133 to 136). \<open>onerror\<close> is the variable of the enclosing \<open>mcp_proxy\<close>. The
  \<open>direction\<close> argument only labels log lines and is left out, as are the log calls.
\<close>

fun forward_messages ::
  "'w error_handler option \<Rightarrow> 'm read_stream \<Rightarrow> ('m, 'w) write_stream \<Rightarrow>
   ('m, 'w) transform_fn option \<Rightarrow> 'w \<Rightarrow> ('m, 'w) result" where
  "forward_messages onerror (ReadStream rid items fin) ws tf w =
     (case forward_loop onerror rid ws tf items fin w of
        (Raised exc, evs, w1) \<Rightarrow>
          (if exc = ClosedResourceError then (Returned (), evs, w1)
           else prepend_events evs (call_onerror onerror exc w1))
      | (r, evs, w1) \<Rightarrow> (r, evs, w1))"

subsection \<open>The except clauses on their own\<close>

text \<open>
  The clause of the inner \<open>try\<close> (lines 124 to 127) and the two clauses of the outer \<open>try\<close>
  (lines 130 to 136), as functions of the result of the block they guard. They are what
  \<open>process_item\<close> and \<open>forward_messages\<close> apply to \<open>try_body\<close> and to \<open>forward_loop\<close>.
\<close>

fun inner_except :: "'w error_handler option \<Rightarrow> ('m, 'w) result \<Rightarrow> ('m, 'w) result" where
  "inner_except onerror (Raised exc, evs, w) = prepend_events evs (call_onerror onerror exc w)"
| "inner_except onerror (r, evs, w) = (r, evs, w)"

fun outer_except :: "'w error_handler option \<Rightarrow> ('m, 'w) result \<Rightarrow> ('m, 'w) result" where
  "outer_except onerror (Raised exc, evs, w) =
     (if exc = ClosedResourceError then (Returned (), evs, w)
      else prepend_events evs (call_onerror onerror exc w))"
| "outer_except onerror (r, evs, w) = (r, evs, w)"

subsection \<open>mcp_proxy\<close>

text \<open>
  The context manager unpacks the two stream pairs (lines 91 and 92), opens a task group
  (line 138) and starts \<open>forward_messages\<close> twice in it: client to server reads
  \<open>client_read\<close> and writes \<open>server_write\<close> with \<open>on_client_message\<close>; server to client reads
  \<open>server_read\<close> and writes \<open>client_write\<close> with \<open>on_server_message\<close> (lines 140 to 153).
  Both share \<open>onerror\<close>. It then gives control to the caller (line 156), and when the
  caller leaves the block, normally or not, it cancels the scope of the task group (line
  161). It makes no call on a stream itself.

  The two tasks and the caller run interleaved, so a task is a coroutine that is run one
  \<open>await\<close> at a time: it is at its receive, at the \<open>await\<close> of the transform for a message,
  at the \<open>await\<close> of the send for a message, or it has ended.
\<close>

datatype 'm pc = AtReceive | AtTransform 'm | AtSend 'm | Finished "unit outcome"

text \<open>
  A task: where it is, the items its receive stream has not delivered yet and the way
  that stream ends, and the calls the task has made.
\<close>

datatype 'm task =
  Task (at: "'m pc") (inbound: "'m item list") (inbound_end: stream_end) (calls: "'m event list")

text \<open>The loop is left: the clauses of the outer \<open>try\<close> decide how the coroutine ends.\<close>

fun finish :: "'w error_handler option \<Rightarrow> 'm task \<Rightarrow> ('m, 'w) result \<Rightarrow> 'm task \<times> 'w" where
  "finish onerror (Task p xs fin cs) res =
     (case outer_except onerror res of
        (r, evs, w) \<Rightarrow> (Task (Finished r) xs fin (cs @ evs), w))"

text \<open>
  The iteration is over: after a normal end (a \<open>continue\<close> included) the task is at its
  receive again; anything else leaves the loop.
\<close>

fun resume :: "'w error_handler option \<Rightarrow> 'm task \<Rightarrow> ('m, 'w) result \<Rightarrow> 'm task \<times> 'w" where
  "resume onerror (Task p xs fin cs) (Returned u, evs, w) = (Task AtReceive xs fin (cs @ evs), w)"
| "resume onerror t res = finish onerror t res"

text \<open>
  Modelled from the spec: the cancel scope of the task group (anyio, not under src/),
  after sections 5 and 9: a token handed to both tasks, and cancelling it is observed at
  each suspension point, which are the receive, the send and the invocation of the hook;
  the operation in progress is abandoned there. So a step of a task first looks at the
  token (\<open>cancelled\<close>): when it is set, the \<open>await\<close> the task is at ends by the cancellation,
  which no \<open>except\<close> clause of \<open>forward_messages\<close> catches. When it is not set, the step
  runs the code up to the next \<open>await\<close>, as \<open>forward_messages\<close> does: the calls of the
  handler are not awaited and belong to the step in which the failure occurs.
\<close>

fun task_step ::
  "'w error_handler option \<Rightarrow> stream_id \<Rightarrow> ('m, 'w) write_stream \<Rightarrow>
   ('m, 'w) transform_fn option \<Rightarrow> bool \<Rightarrow> 'm task \<Rightarrow> 'w \<Rightarrow> 'm task \<times> 'w" where
  "task_step onerror rid ws tf cancelled (Task (Finished r) xs fin cs) w =
     (Task (Finished r) xs fin cs, w)"
| "task_step onerror rid ws tf True (Task AtReceive xs fin cs) w =
     (Task (Finished Cancelled) xs fin (cs @ [Receive rid]), w)"
| "task_step onerror rid ws tf True (Task (AtTransform m) xs fin cs) w =
     (Task (Finished Cancelled) xs fin (cs @ [HookCall m Cancelled]), w)"
| "task_step onerror rid ws tf True (Task (AtSend m) xs fin cs) w =
     (Task (Finished Cancelled) xs fin (cs @ [SendCall (ws_id ws) m Cancelled]), w)"
| "task_step onerror rid ws tf False (Task AtReceive [] fin cs) w =
     finish onerror (Task AtReceive [] fin cs) (end_outcome fin, [Receive rid], w)"
| "task_step onerror rid ws tf False (Task AtReceive (TransportError exc # xs) fin cs) w =
     resume onerror (Task AtReceive xs fin cs)
       (prepend_events [Receive rid] (inner_except onerror (call_onerror onerror exc w)))"
| "task_step onerror rid ws tf False (Task AtReceive (SessionMessage m # xs) fin cs) w =
     (Task (case tf of None \<Rightarrow> AtSend m | Some f \<Rightarrow> AtTransform m) xs fin
        (cs @ [Receive rid]), w)"
| "task_step onerror rid ws None False (Task (AtTransform m) xs fin cs) w =
     (Task (AtSend m) xs fin cs, w)"
| "task_step onerror rid ws (Some f) False (Task (AtTransform m) xs fin cs) w =
     (case f m w of
        (Returned None, w1) \<Rightarrow>
          resume onerror (Task AtReceive xs fin cs) (Returned (), [HookCall m (Returned None)], w1)
      | (Returned (Some transformed), w1) \<Rightarrow>
          (Task (AtSend transformed) xs fin (cs @ [HookCall m (Returned (Some transformed))]), w1)
      | (Raised exc, w1) \<Rightarrow>
          resume onerror (Task AtReceive xs fin cs)
            (inner_except onerror (Raised exc, [HookCall m (Raised exc)], w1))
      | (Cancelled, w1) \<Rightarrow>
          resume onerror (Task AtReceive xs fin cs) (Cancelled, [HookCall m Cancelled], w1))"
| "task_step onerror rid ws tf False (Task (AtSend m) xs fin cs) w =
     resume onerror (Task AtReceive xs fin cs) (inner_except onerror (send_message ws m w))"

text \<open>
  What happens next in a session: one of the two tasks runs to its next \<open>await\<close>, or the
  caller leaves the block. A schedule is a list of these, and every interleaving is a
  schedule.
\<close>

datatype move = RunClientToServer | RunServerToClient | ExitScope

text \<open>
  A session: the token of the scope, the two tasks, and the environment they share (the
  handler, the hooks and the send streams act on it).
\<close>

datatype ('m, 'w) session =
  Session (cancel_called: bool) (client_to_server: "'m task") (server_to_client: "'m task")
    (env: 'w)

text \<open>A task whose coroutine ended by raising.\<close>

fun ended_by_raising :: "'m task \<Rightarrow> bool" where
  "ended_by_raising (Task (Finished (Raised exc)) xs fin cs) = True"
| "ended_by_raising t = False"

text \<open>
  Modelled from the spec: the task group (anyio, not under src/). Leaving the block
  cancels the scope (line 161; section 4.2: on exit, by normal completion or by the scope
  being cancelled from outside, both tasks are cancelled; the two are always stopped
  together). A task that ends by raising stops the group in the same way: the scope is
  cancelled, and with it the other task.
\<close>

fun session_step ::
  "'m read_stream \<times> ('m, 'w) write_stream \<Rightarrow> 'm read_stream \<times> ('m, 'w) write_stream \<Rightarrow>
   'w error_handler option \<Rightarrow> ('m, 'w) transform_fn option \<Rightarrow> ('m, 'w) transform_fn option \<Rightarrow>
   move \<Rightarrow> ('m, 'w) session \<Rightarrow> ('m, 'w) session" where
  "session_step (client_read, client_write) (server_read, server_write) onerror
     on_client_message on_server_message ExitScope (Session cancelled c s w) =
     Session True c s w"
| "session_step (client_read, client_write) (server_read, server_write) onerror
     on_client_message on_server_message RunClientToServer (Session cancelled c s w) =
     (case task_step onerror (rs_id client_read) server_write on_client_message cancelled c w of
        (c', w') \<Rightarrow> Session (cancelled \<or> ended_by_raising c') c' s w')"
| "session_step (client_read, client_write) (server_read, server_write) onerror
     on_client_message on_server_message RunServerToClient (Session cancelled c s w) =
     (case task_step onerror (rs_id server_read) client_write on_server_message cancelled s w of
        (s', w') \<Rightarrow> Session (cancelled \<or> ended_by_raising s') c s' w')"

fun run_session ::
  "'m read_stream \<times> ('m, 'w) write_stream \<Rightarrow> 'm read_stream \<times> ('m, 'w) write_stream \<Rightarrow>
   'w error_handler option \<Rightarrow> ('m, 'w) transform_fn option \<Rightarrow> ('m, 'w) transform_fn option \<Rightarrow>
   move list \<Rightarrow> ('m, 'w) session \<Rightarrow> ('m, 'w) session" where
  "run_session client_streams server_streams onerror on_client_message on_server_message [] st = st"
| "run_session client_streams server_streams onerror on_client_message on_server_message
     (mv # schedule) st =
     run_session client_streams server_streams onerror on_client_message on_server_message schedule
       (session_step client_streams server_streams onerror on_client_message on_server_message
          mv st)"

text \<open>A task that has been started and has not run yet.\<close>

fun start_task :: "'m read_stream \<Rightarrow> 'm task" where
  "start_task (ReadStream rid items fin) = Task AtReceive items fin []"

text \<open>
  The session after the moves of \<open>schedule\<close>, from the entry into the block: both tasks
  started, the scope not cancelled.
\<close>

definition mcp_proxy ::
  "'m read_stream \<times> ('m, 'w) write_stream \<Rightarrow> 'm read_stream \<times> ('m, 'w) write_stream \<Rightarrow>
   'w error_handler option \<Rightarrow> ('m, 'w) transform_fn option \<Rightarrow> ('m, 'w) transform_fn option \<Rightarrow>
   move list \<Rightarrow> 'w \<Rightarrow> ('m, 'w) session" where
  "mcp_proxy client_streams server_streams onerror on_client_message on_server_message schedule w =
     run_session client_streams server_streams onerror on_client_message on_server_message schedule
       (Session False (start_task (fst client_streams)) (start_task (fst server_streams)) w)"

subsection \<open>Reading a run\<close>

text \<open>
  The iterations of the loop over the items \<open>xs\<close> alone, before the next receive: the run
  of the loop up to a point of the stream. The result \<open>Returned ()\<close> says that the loop is
  still running there.
\<close>

fun process_items ::
  "'w error_handler option \<Rightarrow> stream_id \<Rightarrow> ('m, 'w) write_stream \<Rightarrow>
   ('m, 'w) transform_fn option \<Rightarrow> 'm item list \<Rightarrow> 'w \<Rightarrow> ('m, 'w) result" where
  "process_items onerror rid ws tf [] w = (Returned (), [], w)"
| "process_items onerror rid ws tf (x # xs) w =
     (case process_item onerror ws tf x w of
        (Returned u, evs, w1) \<Rightarrow>
          prepend_events (Receive rid # evs) (process_items onerror rid ws tf xs w1)
      | (r, evs, w1) \<Rightarrow> (r, Receive rid # evs, w1))"

text \<open>The messages that were sent (the sends that returned), with their stream, in order.\<close>

fun sent_of :: "'m event \<Rightarrow> (stream_id \<times> 'm) list" where
  "sent_of (SendCall s m (Returned u)) = [(s, m)]"
| "sent_of ev = []"

definition sent :: "'m event list \<Rightarrow> (stream_id \<times> 'm) list" where
  "sent evs = concat (map sent_of evs)"

text \<open>A send that did not return.\<close>

fun failed_send :: "'m event \<Rightarrow> bool" where
  "failed_send (SendCall s m (Returned u)) = False"
| "failed_send (SendCall s m r) = True"
| "failed_send ev = False"

text \<open>The values the error handler was called with, in order.\<close>

fun reported_of :: "'m event \<Rightarrow> exn list" where
  "reported_of (OnError exc r) = [exc]"
| "reported_of ev = []"

definition reported :: "'m event list \<Rightarrow> exn list" where
  "reported evs = concat (map reported_of evs)"

text \<open>
  A call that a task reading \<open>rid\<close> and writing \<open>wid\<close> may make: a receive on \<open>rid\<close>, a send
  on \<open>wid\<close>, a call of a hook or of the handler, and no \<open>Close\<close>.
\<close>

fun reads_and_sends :: "stream_id \<Rightarrow> stream_id \<Rightarrow> 'm event \<Rightarrow> bool" where
  "reads_and_sends rid wid (Receive s) = (s = rid)"
| "reads_and_sends rid wid (SendCall s m r) = (s = wid)"
| "reads_and_sends rid wid (Close s) = False"
| "reads_and_sends rid wid ev = True"

text \<open>
  A task run on its own for \<open>n\<close> steps, in a scope that is not cancelled: the coroutine
  \<open>forward_messages\<close> taken one \<open>await\<close> at a time.
\<close>

fun run_task ::
  "'w error_handler option \<Rightarrow> stream_id \<Rightarrow> ('m, 'w) write_stream \<Rightarrow>
   ('m, 'w) transform_fn option \<Rightarrow> nat \<Rightarrow> 'm task \<Rightarrow> 'w \<Rightarrow> 'm task \<times> 'w" where
  "run_task onerror rid ws tf 0 t w = (t, w)"
| "run_task onerror rid ws tf (Suc n) t w =
     (case task_step onerror rid ws tf False t w of
        (t', w') \<Rightarrow> run_task onerror rid ws tf n t' w')"

text \<open>
  Where a task is once it has run in a cancelled scope: ended as it had ended before, or
  ended by the cancellation.
\<close>

fun after_cancel :: "'m pc \<Rightarrow> 'm pc" where
  "after_cancel (Finished r) = Finished r"
| "after_cancel p = Finished Cancelled"

subsection \<open>Callbacks and streams for concrete runs\<close>

text \<open>
  \<open>handle_error\<close> of the example server (examples/servers/simple-proxy) writes the error to
  the log and returns; the log is the environment here. Its \<open>inspect_client_message\<close> and
  \<open>inspect_server_message\<close> log a line and return the message they were given.
\<close>

definition handle_error :: "exn list error_handler" where
  "handle_error error log = (Returned (), log @ [error])"

definition inspect_client_message :: "('m, 'w) transform_fn" where
  "inspect_client_message msg w = (Returned (Some msg), w)"

text \<open>
  A handler that raises what it is given (\<open>def onerror(e): raise e\<close>), and a transform
  that raises on every message.
\<close>

definition raise_error :: "'w error_handler" where
  "raise_error error w = (Raised error, w)"

definition failing_transform :: "('m, 'w) transform_fn" where
  "failing_transform msg w = (Raised (OtherException ''transform failed''), w)"

text \<open>A send stream that accepts every message, and one that is closed.\<close>

definition open_send :: "'m \<Rightarrow> 'w \<Rightarrow> unit outcome \<times> 'w" where
  "open_send m w = (Returned (), w)"

definition closed_send :: "'m \<Rightarrow> 'w \<Rightarrow> unit outcome \<times> 'w" where
  "closed_send m w = (Raised ClosedResourceError, w)"

section \<open>Properties\<close>

subsection \<open>Composing runs\<close>

lemma prepend_events_append:
  "prepend_events evs (prepend_events evs' res) = prepend_events (evs @ evs') res"
  by (cases res) simp

lemma prepend_events_Nil: "prepend_events [] res = res"
  by (cases res) simp

lemma prepend_events_eq:
  "prepend_events evs res = (r, evs', w) \<longleftrightarrow> (\<exists>es. res = (r, es, w) \<and> evs' = evs @ es)"
  by (cases res) auto

text \<open>The loop over \<open>xs @ ys\<close> is the loop over \<open>ys\<close> from where the iterations over \<open>xs\<close> end.\<close>

lemma forward_loop_append:
  "forward_loop onerror rid ws tf (xs @ ys) fin w =
     (case process_items onerror rid ws tf xs w of
        (Returned u, evs1, w1) \<Rightarrow> prepend_events evs1 (forward_loop onerror rid ws tf ys fin w1)
      | (r, evs1, w1) \<Rightarrow> (r, evs1, w1))"
proof (induction xs arbitrary: w)
  case Nil
  show ?case by (simp add: prepend_events_Nil)
next
  case (Cons x xs)
  show ?case
    by (simp add: Cons.IH prepend_events_append split: prod.splits outcome.splits)
qed

text \<open>The clauses of the outer \<open>try\<close> look at the end of a run only.\<close>

lemma outer_prepend:
  "(case prepend_events evs0 res of
        (Raised exc, evs, w1) \<Rightarrow>
          (if exc = ClosedResourceError then (Returned (), evs, w1)
           else prepend_events evs (call_onerror onerror exc w1))
      | (r, evs, w1) \<Rightarrow> (r, evs, w1)) =
    prepend_events evs0 (case res of
        (Raised exc, evs, w1) \<Rightarrow>
          (if exc = ClosedResourceError then (Returned (), evs, w1)
           else prepend_events evs (call_onerror onerror exc w1))
      | (r, evs, w1) \<Rightarrow> (r, evs, w1))"
  by (cases res) (auto simp: prepend_events_append split: outcome.splits)

lemma forward_messages_append:
  assumes "process_items onerror rid ws tf xs w = (Returned (), evs1, w1)"
  shows "forward_messages onerror (ReadStream rid (xs @ ys) fin) ws tf w =
         prepend_events evs1 (forward_messages onerror (ReadStream rid ys fin) ws tf w1)"
  using assms by (simp add: forward_loop_append outer_prepend)

text \<open>An iteration that ends normally is followed by the rest of the stream.\<close>

lemma forward_messages_step:
  assumes "process_items onerror rid ws tf xs w = (Returned (), evs1, w1)"
      and "process_item onerror ws tf x w1 = (Returned (), evs, w2)"
  shows "forward_messages onerror (ReadStream rid (xs @ x # ys) fin) ws tf w =
         prepend_events (evs1 @ Receive rid # evs)
           (forward_messages onerror (ReadStream rid ys fin) ws tf w2)"
proof -
  have "forward_messages onerror (ReadStream rid (x # ys) fin) ws tf w1 =
        prepend_events (Receive rid # evs)
          (forward_messages onerror (ReadStream rid ys fin) ws tf w2)"
    using assms(2) by (simp add: outer_prepend)
  then show ?thesis
    using forward_messages_append [OF assms(1), of "x # ys" fin]
    by (simp add: prepend_events_append)
qed

lemma call_onerror_sent:
  "call_onerror onerror exc w = (r, evs, w') \<Longrightarrow> sent evs = [] \<and> filter failed_send evs = []"
  by (cases onerror) (auto simp: sent_def split: prod.splits)

subsection \<open>Forwarding without a transform\<close>

lemma forward_loop_sent:
  fixes ws :: "('m, 'w) write_stream"
  assumes "forward_loop onerror rid ws None (map SessionMessage ms) fin w = (r, evs, w')"
      and "filter failed_send evs = []"
    shows "sent evs = map (Pair (ws_id ws)) ms"
  using assms
proof (induction ms arbitrary: w r evs w')
  case Nil
  then show ?case by (auto simp: sent_def)
next
  case (Cons m ms)
  obtain r1 w1 where s: "ws_send ws m w = (r1, w1)" by (cases "ws_send ws m w")
  show ?case
  proof (cases r1)
    case (Returned u)
    obtain r2 evs2 w2
      where l: "forward_loop onerror rid ws None (map SessionMessage ms) fin w1 = (r2, evs2, w2)"
      by (cases "forward_loop onerror rid ws None (map SessionMessage ms) fin w1")
    from Cons.prems s Returned l
    have e: "evs = Receive rid # SendCall (ws_id ws) m (Returned ()) # evs2"
      by (auto simp: process_item_def prepend_events_eq)
    with Cons.prems(2) have "filter failed_send evs2 = []" by simp
    from Cons.IH [OF l this] e show ?thesis by (simp add: sent_def)
  next
    case (Raised exc)
    from Cons.prems(1) s Raised
    have "\<exists>rest. evs = Receive rid # SendCall (ws_id ws) m (Raised exc) # rest"
      by (auto simp: process_item_def prepend_events_eq split: outcome.splits prod.splits)
    with Cons.prems(2) show ?thesis by auto
  next
    case Cancelled
    from Cons.prems(1) s Cancelled
    have "evs = [Receive rid, SendCall (ws_id ws) m Cancelled]"
      by (auto simp: process_item_def)
    with Cons.prems(2) show ?thesis by auto
  qed
qed

text \<open>
  C1 (order preservation). With no transform configured, a stream that delivers the
  messages \<open>ms\<close> and no transport error, and no send that fails: the messages sent are
  exactly \<open>ms\<close>, in order, all on the send stream of this direction. This holds however
  the stream ends after them.
\<close>

theorem order_preservation:
  fixes ws :: "('m, 'w) write_stream"
  assumes "forward_messages onerror (ReadStream rid (map SessionMessage ms) fin) ws None w
           = (r, evs, w')"
      and "filter failed_send evs = []"
  shows "sent evs = map (Pair (ws_id ws)) ms"
proof -
  obtain r0 evs0 w0
    where l: "forward_loop onerror rid ws None (map SessionMessage ms) fin w = (r0, evs0, w0)"
    by (cases "forward_loop onerror rid ws None (map SessionMessage ms) fin w")
  show ?thesis
  proof (cases "\<exists>exc. r0 = Raised exc \<and> exc \<noteq> ClosedResourceError")
    case True
    then obtain exc where r0: "r0 = Raised exc" "exc \<noteq> ClosedResourceError" by blast
    obtain r3 evs3 w3 where h: "call_onerror onerror exc w0 = (r3, evs3 :: 'm event list, w3)"
      by (cases "call_onerror onerror exc w0 :: ('m, 'w) result")
    from assms(1) l r0 h have e: "evs = evs0 @ evs3" by (auto simp: prepend_events_eq)
    from call_onerror_sent [OF h] have h': "sent evs3 = []" "filter failed_send evs3 = []"
      by simp_all
    from assms(2) e have "filter failed_send evs0 = []" by simp
    from forward_loop_sent [OF l this] e h' show ?thesis by (simp add: sent_def)
  next
    case False
    with assms(1) l have "evs = evs0" by (auto split: outcome.splits if_splits)
    with forward_loop_sent [OF l] assms(2) show ?thesis by simp
  qed
qed

text \<open>
  The requests \<open>R1\<close>, \<open>R2\<close>, \<open>R3\<close> from the client, no transform: the server-facing send
  stream receives them in that order.
\<close>

theorem order_preservation_witness:
  "forward_messages None
     (ReadStream 0 (map SessionMessage [''R1'', ''R2'', ''R3'']) EndOfStream)
     (WriteStream 1 open_send) None ()
   = (Returned (),
      [Receive 0, SendCall 1 ''R1'' (Returned ()), Receive 0, SendCall 1 ''R2'' (Returned ()),
       Receive 0, SendCall 1 ''R3'' (Returned ()), Receive 0], ())
   \<and> filter failed_send
      [Receive 0, SendCall 1 ''R1'' (Returned ()), Receive 0, SendCall 1 ''R2'' (Returned ()),
       Receive 0, SendCall 1 ''R3'' (Returned ()), Receive 0] = []
   \<and> sent
      [Receive 0, SendCall 1 ''R1'' (Returned ()), Receive 0, SendCall 1 ''R2'' (Returned ()),
       Receive 0, SendCall 1 ''R3'' (Returned ()), Receive 0]
     = [(1, ''R1''), (1, ''R2''), (1, ''R3'')]"
proof -
  let ?evs = "[Receive 0, SendCall 1 ''R1'' (Returned ()), Receive 0,
               SendCall 1 ''R2'' (Returned ()), Receive 0, SendCall 1 ''R3'' (Returned ()),
               Receive 0] :: string event list"
  have run: "forward_messages None
     (ReadStream 0 (map SessionMessage [''R1'', ''R2'', ''R3'']) EndOfStream)
     (WriteStream 1 open_send) None () = (Returned (), ?evs, ())"
    by (simp add: process_item_def open_send_def)
  have ok: "filter failed_send ?evs = []" by simp
  from order_preservation [OF run ok] run ok show ?thesis by simp
qed

subsection \<open>The except clauses\<close>

text \<open>
  An iteration is the inner clause applied to the body of the \<open>try\<close>, and the coroutine is
  the outer clauses applied to the loop.
\<close>

lemma process_item_inner:
  "process_item onerror ws tf x w = inner_except onerror (try_body onerror ws tf x w)"
proof -
  obtain r evs w1 where "try_body onerror ws tf x w = (r, evs, w1)"
    by (cases "try_body onerror ws tf x w")
  then show ?thesis by (cases r) (simp_all add: process_item_def)
qed

lemma forward_messages_outer:
  "forward_messages onerror (ReadStream rid items fin) ws tf w =
   outer_except onerror (forward_loop onerror rid ws tf items fin w)"
proof -
  obtain r evs w1 where "forward_loop onerror rid ws tf items fin w = (r, evs, w1)"
    by (cases "forward_loop onerror rid ws tf items fin w")
  then show ?thesis by (cases r) simp_all
qed

lemma outer_except_prepend:
  "outer_except onerror (prepend_events evs0 res) = prepend_events evs0 (outer_except onerror res)"
proof -
  obtain r evs w where "res = (r, evs, w)" by (cases res)
  then show ?thesis by (cases r) (simp_all add: prepend_events_append)
qed

lemma inner_except_prepend:
  "inner_except onerror (prepend_events evs0 res) = prepend_events evs0 (inner_except onerror res)"
proof -
  obtain r evs w where "res = (r, evs, w)" by (cases res)
  then show ?thesis by (cases r) (simp_all add: prepend_events_append)
qed

subsection \<open>Transport errors\<close>

text \<open>A report that returns is one call of the handler, or nothing when none is configured.\<close>

lemma call_onerror_returned:
  "call_onerror onerror exc w = (Returned (), evsH, w2) \<Longrightarrow>
   evsH = (case onerror of None \<Rightarrow> [] | Some h \<Rightarrow> [OnError exc (Returned ())])"
  by (cases onerror) (auto split: prod.splits)

lemma inner_except_sent:
  fixes evs :: "'m event list" and w :: 'w
  assumes "sent evs = []"
  shows "sent (fst (snd (inner_except onerror (r, evs, w)))) = []"
proof (cases r)
  case (Raised exc)
  obtain r' evs' w' where h: "call_onerror onerror exc w = (r', evs' :: 'm event list, w')"
    by (cases "call_onerror onerror exc w :: ('m, 'w) result")
  from call_onerror_sent [OF h] assms Raised h show ?thesis by (simp add: sent_def)
qed (use assms in auto)

text \<open>
  The stream delivers the items \<open>xs\<close>, then the exception value \<open>exc\<close>, then the items \<open>ys\<close>,
  and the loop has run over \<open>xs\<close> with the calls \<open>evs1\<close>. For every handler: the calls for
  \<open>xs\<close> stand as they are, the iteration for \<open>exc\<close> starts with the report of \<open>exc\<close> and
  sends nothing. When the report returns (it always does with no handler configured),
  the report is exactly one call of the handler, or nothing with no handler, and the run
  goes on as the run of the coroutine over \<open>ys\<close>.
\<close>

lemma transport_error_returning_handler:
  fixes ws :: "('m, 'w) write_stream"
  assumes "process_items onerror rid ws tf xs w = (Returned (), evs1, w1)"
  shows "forward_messages onerror (ReadStream rid (xs @ TransportError exc # ys) fin) ws tf w =
         prepend_events evs1
           (forward_messages onerror (ReadStream rid (TransportError exc # ys) fin) ws tf w1)
       \<and> process_item onerror ws tf (TransportError exc) w1 =
           inner_except onerror (call_onerror onerror exc w1)
       \<and> sent (fst (snd (process_item onerror ws tf (TransportError exc) w1))) = []
       \<and> (\<forall>evsH w2. call_onerror onerror exc w1 = (Returned (), evsH, w2) \<longrightarrow>
            forward_messages onerror (ReadStream rid (xs @ TransportError exc # ys) fin) ws tf w =
            prepend_events (evs1 @ Receive rid # evsH)
              (forward_messages onerror (ReadStream rid ys fin) ws tf w2)
          \<and> evsH = (case onerror of None \<Rightarrow> [] | Some h \<Rightarrow> [OnError exc (Returned ())]))"
proof (intro conjI allI impI)
  show "forward_messages onerror (ReadStream rid (xs @ TransportError exc # ys) fin) ws tf w =
         prepend_events evs1
           (forward_messages onerror (ReadStream rid (TransportError exc # ys) fin) ws tf w1)"
    by (rule forward_messages_append [OF assms])
  show it: "process_item onerror ws tf (TransportError exc) w1 =
           inner_except onerror (call_onerror onerror exc w1)"
    by (simp add: process_item_inner)
  obtain r0 evs0 w0 where h: "call_onerror onerror exc w1 = (r0, evs0 :: 'm event list, w0)"
    by (cases "call_onerror onerror exc w1 :: ('m, 'w) result")
  from call_onerror_sent [OF h] have "sent evs0 = []" by simp
  from inner_except_sent [OF this, of onerror r0 w0] it h
  show "sent (fst (snd (process_item onerror ws tf (TransportError exc) w1))) = []"
    by simp
  fix evsH :: "'m event list" and w2
  assume rep: "call_onerror onerror exc w1 = (Returned (), evsH, w2)"
  with it have "process_item onerror ws tf (TransportError exc) w1 = (Returned (), evsH, w2)"
    by simp
  from forward_messages_step [OF assms this]
  show "forward_messages onerror (ReadStream rid (xs @ TransportError exc # ys) fin) ws tf w =
            prepend_events (evs1 @ Receive rid # evsH)
              (forward_messages onerror (ReadStream rid ys fin) ws tf w2)"
    by simp
  from call_onerror_returned [OF rep]
  show "evsH = (case onerror of None \<Rightarrow> [] | Some h \<Rightarrow> [OnError exc (Returned ())])" .
qed

text \<open>
  The client stream delivers \<open>M1\<close>, the transport error \<open>E\<close>, \<open>M2\<close>, and the handler is the
  example server's: the server-facing stream receives \<open>M1\<close>, \<open>M2\<close> and the handler is
  called once, with \<open>E\<close>.
\<close>

lemma transport_error_example:
  "forward_messages (Some handle_error)
       (ReadStream 0
          [SessionMessage ''M1'', TransportError (OtherException ''E''), SessionMessage ''M2'']
          EndOfStream)
       (WriteStream 1 open_send) None []
     = (Returned (),
        [Receive 0, SendCall 1 ''M1'' (Returned ()),
         Receive 0, OnError (OtherException ''E'') (Returned ()),
         Receive 0, SendCall 1 ''M2'' (Returned ()), Receive 0],
        [OtherException ''E''])"
  by (simp add: process_item_def open_send_def handle_error_def)

text \<open>
  C2 (error isolation): a transport error is reported to the handler exactly once, is
  not sent, and the loop continues to the next item. The code does this for every
  handler whose call returns, as shown above. It calls the handler with no \<open>try\<close> of
  its own (lines 108, 127 and 136), so a handler that raises is not isolated: its
  exception is caught by the inner clause, which calls the handler again (line 127), and
  when that call raises as well the loop is left and the outer clause calls it a third
  time (line 136). With a handler that raises what it is given and the stream \<open>E\<close>, \<open>M\<close>:
  the handler is called three times with \<open>E\<close>, the coroutine ends by raising, and \<open>M\<close> is
  never received. The docstring of \<open>mcp_proxy\<close> says of the callback that the proxy
  continues forwarding other messages after calling it (lines 58 and 59), and so does
  the comment of line 128.
\<close>

theorem transport_error_raising_handler:
  "forward_messages (Some raise_error)
     (ReadStream 0 [TransportError (OtherException ''E''), SessionMessage ''M''] EndOfStream)
     (WriteStream 1 open_send) None ()
   = (Raised (OtherException ''E''),
      [Receive 0, OnError (OtherException ''E'') (Raised (OtherException ''E'')),
       OnError (OtherException ''E'') (Raised (OtherException ''E'')),
       OnError (OtherException ''E'') (Raised (OtherException ''E''))],
      ())
   \<and> reported
       [Receive 0 :: string event, OnError (OtherException ''E'') (Raised (OtherException ''E'')),
        OnError (OtherException ''E'') (Raised (OtherException ''E'')),
        OnError (OtherException ''E'') (Raised (OtherException ''E''))]
     = [OtherException ''E'', OtherException ''E'', OtherException ''E'']
   \<and> sent
       [Receive 0 :: string event, OnError (OtherException ''E'') (Raised (OtherException ''E'')),
        OnError (OtherException ''E'') (Raised (OtherException ''E'')),
        OnError (OtherException ''E'') (Raised (OtherException ''E''))]
     = []"
  by (simp add: process_item_def raise_error_def reported_def sent_def)

subsection \<open>The transform: drop, replace, fail\<close>

text \<open>
  C3 (drop semantics). A transform \<open>f\<close> is configured, the loop has run over \<open>xs\<close>, and
  \<open>f\<close> returns \<open>None\<close> for the message \<open>m\<close>. Then the calls made for \<open>m\<close> are the receive
  and the one call of the hook: no send and no call of the handler. The run goes on as
  the run of the coroutine over the items \<open>ys\<close> that follow.
\<close>

theorem drop_semantics:
  fixes ws :: "('m, 'w) write_stream"
  assumes "process_items onerror rid ws (Some f) xs w = (Returned (), evs1, w1)"
      and "f m w1 = (Returned None, w2)"
  shows "forward_messages onerror (ReadStream rid (xs @ SessionMessage m # ys) fin) ws (Some f) w =
         prepend_events (evs1 @ [Receive rid, HookCall m (Returned None)])
           (forward_messages onerror (ReadStream rid ys fin) ws (Some f) w2)"
proof -
  have "process_item onerror ws (Some f) (SessionMessage m) w1 =
        (Returned (), [HookCall m (Returned None)], w2)"
    using assms(2) by (simp add: process_item_def)
  from forward_messages_step [OF assms(1) this] show ?thesis by simp
qed

text \<open>
  The server sends \<open>S1\<close>, which the transform maps to \<open>None\<close>, then \<open>S2\<close>: the client-facing
  stream receives \<open>S2\<close> only, and the handler's log stays empty.
\<close>

theorem drop_semantics_witness:
  "process_items (Some handle_error) 2 (WriteStream 3 open_send)
     (Some (\<lambda>m w. (Returned (if m = ''S1'' then None else Some m), w))) [] []
   = (Returned (), [], [])
   \<and> forward_messages (Some handle_error)
       (ReadStream 2 [SessionMessage ''S1'', SessionMessage ''S2''] EndOfStream)
       (WriteStream 3 open_send)
       (Some (\<lambda>m w. (Returned (if m = ''S1'' then None else Some m), w))) []
     = (Returned (),
        [Receive 2, HookCall ''S1'' (Returned None),
         Receive 2, HookCall ''S2'' (Returned (Some ''S2'')), SendCall 3 ''S2'' (Returned ()),
         Receive 2],
        [])"
proof -
  let ?f = "\<lambda>m (w :: exn list). (Returned (if m = ''S1'' then None else Some m), w)"
  have pre: "process_items (Some handle_error) 2 (WriteStream 3 open_send) (Some ?f) [] []
     = (Returned (), [], [])"
    by simp
  have drop: "?f ''S1'' [] = (Returned None, [])" by simp
  from drop_semantics [of "Some handle_error" 2 "WriteStream 3 open_send" ?f "[]" "[]" "[]" "[]"
      "''S1''" "[]" "[SessionMessage ''S2'']" EndOfStream, OF pre drop] pre
  show ?thesis by (simp add: process_item_def open_send_def)
qed

text \<open>
  C4 (replacement semantics). The transform returns the message \<open>m'\<close> for the message
  \<open>m\<close>, and the send of \<open>m'\<close> ends with \<open>r\<close>. Then the iteration for \<open>m\<close> makes the call of
  the hook and then the send of \<open>m'\<close> on the send stream of this direction, and sends
  nothing else: \<open>m\<close> itself is passed to the hook only. When the send returns, these two
  calls are all the iteration does, and the run goes on over the items \<open>ys\<close> that follow.
\<close>

theorem replacement_semantics:
  fixes ws :: "('m, 'w) write_stream"
  assumes "process_items onerror rid ws (Some f) xs w = (Returned (), evs1, w1)"
      and "f m w1 = (Returned (Some m'), w2)"
      and "ws_send ws m' w2 = (r, w3)"
  shows "(\<exists>res. process_item onerror ws (Some f) (SessionMessage m) w1 =
            prepend_events [HookCall m (Returned (Some m')), SendCall (ws_id ws) m' r] res
          \<and> sent (fst (snd res)) = [])
       \<and> (r = Returned () \<longrightarrow>
          forward_messages onerror (ReadStream rid (xs @ SessionMessage m # ys) fin) ws (Some f) w =
          prepend_events
            (evs1 @ [Receive rid, HookCall m (Returned (Some m')),
                     SendCall (ws_id ws) m' (Returned ())])
            (forward_messages onerror (ReadStream rid ys fin) ws (Some f) w3))"
proof (intro conjI impI)
  show "\<exists>res. process_item onerror ws (Some f) (SessionMessage m) w1 =
            prepend_events [HookCall m (Returned (Some m')), SendCall (ws_id ws) m' r] res
          \<and> sent (fst (snd res)) = []"
  proof (cases r)
    case (Returned u)
    with assms(2,3) show ?thesis
      by (intro exI [of _ "(Returned (), [], w3)"]) (simp add: process_item_def sent_def)
  next
    case (Raised exc)
    obtain r' evs' w' where h: "call_onerror onerror exc w3 = (r', evs' :: 'm event list, w')"
      by (cases "call_onerror onerror exc w3 :: ('m, 'w) result")
    from call_onerror_sent [OF h] have "sent evs' = []" by simp
    with assms(2,3) Raised h show ?thesis
      by (intro exI [of _ "(r', evs', w')"]) (simp add: process_item_def)
  next
    case Cancelled
    with assms(2,3) show ?thesis
      by (intro exI [of _ "(Cancelled, [], w3)"]) (simp add: process_item_def sent_def)
  qed
next
  assume "r = Returned ()"
  with assms(2,3)
  have "process_item onerror ws (Some f) (SessionMessage m) w1 =
        (Returned (), [HookCall m (Returned (Some m')), SendCall (ws_id ws) m' (Returned ())], w3)"
    by (simp add: process_item_def)
  from forward_messages_step [OF assms(1) this]
  show "forward_messages onerror (ReadStream rid (xs @ SessionMessage m # ys) fin) ws (Some f) w =
          prepend_events
            (evs1 @ [Receive rid, HookCall m (Returned (Some m')),
                     SendCall (ws_id ws) m' (Returned ())])
            (forward_messages onerror (ReadStream rid ys fin) ws (Some f) w3)"
    by simp
qed

text \<open>A transform that rewrites every message: \<open>M\<close> goes in, \<open>M-rewritten\<close> is what is sent.\<close>

theorem replacement_semantics_witness:
  "process_items None 0 (WriteStream 1 open_send)
     (Some (\<lambda>m w. (Returned (Some (m @ ''-rewritten'')), w))) [] ()
   = (Returned (), [], ())
   \<and> ws_send (WriteStream 1 open_send) ''M-rewritten'' () = (Returned (), ())
   \<and> forward_messages None (ReadStream 0 [SessionMessage ''M''] EndOfStream)
       (WriteStream 1 open_send) (Some (\<lambda>m w. (Returned (Some (m @ ''-rewritten'')), w))) ()
     = (Returned (),
        [Receive 0, HookCall ''M'' (Returned (Some ''M-rewritten'')),
         SendCall 1 ''M-rewritten'' (Returned ()), Receive 0],
        ())
   \<and> sent [Receive 0, HookCall ''M'' (Returned (Some ''M-rewritten'')),
            SendCall 1 ''M-rewritten'' (Returned ()), Receive 0]
     = [(1, ''M-rewritten'')]"
proof -
  let ?f = "\<lambda>m (w :: unit). (Returned (Some (m @ ''-rewritten'')), w)"
  have pre: "process_items None 0 (WriteStream 1 open_send) (Some ?f) [] () = (Returned (), [], ())"
    by simp
  have hook: "?f ''M'' () = (Returned (Some ''M-rewritten''), ())" by simp
  have snd: "ws_send (WriteStream 1 open_send) ''M-rewritten'' () = (Returned (), ())"
    by (simp add: open_send_def)
  note t = replacement_semantics [of None 0 "WriteStream 1 open_send" ?f "[]" "()" "[]" "()"
      "''M''" "''M-rewritten''" "()" "Returned ()" "()" "[]" EndOfStream,
      OF pre hook snd, THEN conjunct2, rule_format, OF refl]
  from t pre snd show ?thesis by (simp add: sent_def)
qed

text \<open>
  The transform raises \<open>exc\<close> on the message \<open>m\<close>. For every handler, the iteration for \<open>m\<close>
  is the one call of the hook followed by the report of \<open>exc\<close> (one call of the handler
  when a handler is configured, nothing otherwise): no send, no second call of the hook.
  When the report returns, the run goes on as the run of the coroutine over the items
  \<open>ys\<close> that follow.
\<close>

lemma transform_failure_returning_handler:
  fixes ws :: "('m, 'w) write_stream"
  assumes "process_items onerror rid ws (Some f) xs w = (Returned (), evs1, w1)"
      and "f m w1 = (Raised exc, w2)"
  shows "process_item onerror ws (Some f) (SessionMessage m) w1 =
         prepend_events [HookCall m (Raised exc)] (call_onerror onerror exc w2)
       \<and> (\<forall>evsH w3. call_onerror onerror exc w2 = (Returned (), evsH, w3) \<longrightarrow>
            forward_messages onerror (ReadStream rid (xs @ SessionMessage m # ys) fin) ws (Some f) w =
            prepend_events (evs1 @ [Receive rid, HookCall m (Raised exc)] @ evsH)
              (forward_messages onerror (ReadStream rid ys fin) ws (Some f) w3)
          \<and> evsH = (case onerror of None \<Rightarrow> [] | Some h \<Rightarrow> [OnError exc (Returned ())]))"
proof (intro conjI allI impI)
  show it: "process_item onerror ws (Some f) (SessionMessage m) w1 =
         prepend_events [HookCall m (Raised exc)] (call_onerror onerror exc w2)"
    using assms(2) by (simp add: process_item_def)
  fix evsH :: "'m event list" and w3
  assume rep: "call_onerror onerror exc w2 = (Returned (), evsH, w3)"
  with it have "process_item onerror ws (Some f) (SessionMessage m) w1 =
        (Returned (), HookCall m (Raised exc) # evsH, w3)"
    by simp
  from forward_messages_step [OF assms(1) this]
  show "forward_messages onerror (ReadStream rid (xs @ SessionMessage m # ys) fin) ws (Some f) w =
            prepend_events (evs1 @ [Receive rid, HookCall m (Raised exc)] @ evsH)
              (forward_messages onerror (ReadStream rid ys fin) ws (Some f) w3)"
    by simp
  from call_onerror_returned [OF rep]
  show "evsH = (case onerror of None \<Rightarrow> [] | Some h \<Rightarrow> [OnError exc (Returned ())])" .
qed

text \<open>
  A transform that fails on every message and the example server's handler: each failure
  is logged, nothing is sent, and the loop goes on to the end of the stream.
\<close>

lemma transform_failure_example:
  "forward_messages (Some handle_error)
       (ReadStream 0 [SessionMessage ''M1'', SessionMessage ''M2''] EndOfStream)
       (WriteStream 1 open_send) (Some failing_transform) []
     = (Returned (),
        [Receive 0, HookCall ''M1'' (Raised (OtherException ''transform failed'')),
         OnError (OtherException ''transform failed'') (Returned ()),
         Receive 0, HookCall ''M2'' (Raised (OtherException ''transform failed'')),
         OnError (OtherException ''transform failed'') (Returned ()), Receive 0],
        [OtherException ''transform failed'', OtherException ''transform failed''])"
  by (simp add: process_item_def failing_transform_def handle_error_def)

text \<open>
  C5 (transform failure): the failure of the hook is reported, nothing is sent for the
  item, the hook is not retried, and the loop continues with the following items. The
  code does this for every handler whose call returns, as shown above; the report, the
  missing send and the single call of the hook hold for every handler. The loop does not
  continue when the handler raises, since the call of line 127 is inside no \<open>try\<close> of its
  own. With a transform that raises and a handler that raises what it is given, on the
  stream \<open>M1\<close>, \<open>M2\<close>: the failure on \<open>M1\<close> is reported at line 127 and again at line 136,
  the coroutine ends by raising, and \<open>M2\<close> is never received. The docstring of
  \<open>mcp_proxy\<close> (lines 58 and 59) and the comment of line 128 say that forwarding
  continues after the call of the handler.
\<close>

theorem transform_failure_raising_handler:
  "forward_messages (Some raise_error)
     (ReadStream 0 [SessionMessage ''M1'', SessionMessage ''M2''] EndOfStream)
     (WriteStream 1 open_send) (Some failing_transform) ()
   = (Raised (OtherException ''transform failed''),
      [Receive 0, HookCall ''M1'' (Raised (OtherException ''transform failed'')),
       OnError (OtherException ''transform failed'')
         (Raised (OtherException ''transform failed'')),
       OnError (OtherException ''transform failed'')
         (Raised (OtherException ''transform failed''))],
      ())"
  by (simp add: process_item_def raise_error_def failing_transform_def)

subsection \<open>Send failures\<close>

text \<open>
  The send for the message \<open>m\<close> raises \<open>exc\<close>, on either path: the message itself when no
  transform is configured (line 122), or the transformed message \<open>m'\<close> (line 119). For
  every handler, the iteration ends with the failed send followed by the report of \<open>exc\<close>
  (one call of the handler when a handler is configured, nothing otherwise). When the
  report returns, the run goes on as the run of the coroutine over the items \<open>ys\<close> that
  follow: the loop is left only by what ends the stream.
\<close>

lemma send_failure_returning_handler:
  fixes ws :: "('m, 'w) write_stream"
  assumes "process_items onerror rid ws tf xs w = (Returned (), evs1, w1)"
  shows "(tf = None \<and> ws_send ws m w1 = (Raised exc, w3) \<longrightarrow>
          process_item onerror ws tf (SessionMessage m) w1 =
          prepend_events [SendCall (ws_id ws) m (Raised exc)] (call_onerror onerror exc w3)
        \<and> (\<forall>evsH w4. call_onerror onerror exc w3 = (Returned (), evsH, w4) \<longrightarrow>
            forward_messages onerror (ReadStream rid (xs @ SessionMessage m # ys) fin) ws tf w =
            prepend_events (evs1 @ [Receive rid, SendCall (ws_id ws) m (Raised exc)] @ evsH)
              (forward_messages onerror (ReadStream rid ys fin) ws tf w4)
          \<and> evsH = (case onerror of None \<Rightarrow> [] | Some h \<Rightarrow> [OnError exc (Returned ())])))
       \<and> (\<forall>f m' w2. tf = Some f \<and> f m w1 = (Returned (Some m'), w2) \<and>
            ws_send ws m' w2 = (Raised exc, w3) \<longrightarrow>
          process_item onerror ws tf (SessionMessage m) w1 =
          prepend_events [HookCall m (Returned (Some m')), SendCall (ws_id ws) m' (Raised exc)]
            (call_onerror onerror exc w3)
        \<and> (\<forall>evsH w4. call_onerror onerror exc w3 = (Returned (), evsH, w4) \<longrightarrow>
            forward_messages onerror (ReadStream rid (xs @ SessionMessage m # ys) fin) ws tf w =
            prepend_events
              (evs1 @ [Receive rid, HookCall m (Returned (Some m')),
                       SendCall (ws_id ws) m' (Raised exc)] @ evsH)
              (forward_messages onerror (ReadStream rid ys fin) ws tf w4)
          \<and> evsH = (case onerror of None \<Rightarrow> [] | Some h \<Rightarrow> [OnError exc (Returned ())])))"
proof (intro conjI allI impI)
  assume a: "tf = None \<and> ws_send ws m w1 = (Raised exc, w3)"
  then show it: "process_item onerror ws tf (SessionMessage m) w1 =
          prepend_events [SendCall (ws_id ws) m (Raised exc)] (call_onerror onerror exc w3)"
    by (simp add: process_item_def)
  fix evsH :: "'m event list" and w4
  assume rep: "call_onerror onerror exc w3 = (Returned (), evsH, w4)"
  with it have "process_item onerror ws tf (SessionMessage m) w1 =
        (Returned (), SendCall (ws_id ws) m (Raised exc) # evsH, w4)"
    by simp
  from forward_messages_step [OF assms this]
  show "forward_messages onerror (ReadStream rid (xs @ SessionMessage m # ys) fin) ws tf w =
            prepend_events (evs1 @ [Receive rid, SendCall (ws_id ws) m (Raised exc)] @ evsH)
              (forward_messages onerror (ReadStream rid ys fin) ws tf w4)"
    by simp
  from call_onerror_returned [OF rep]
  show "evsH = (case onerror of None \<Rightarrow> [] | Some h \<Rightarrow> [OnError exc (Returned ())])" .
next
  fix f m' w2
  assume a: "tf = Some f \<and> f m w1 = (Returned (Some m'), w2) \<and>
            ws_send ws m' w2 = (Raised exc, w3)"
  then show it: "process_item onerror ws tf (SessionMessage m) w1 =
          prepend_events [HookCall m (Returned (Some m')), SendCall (ws_id ws) m' (Raised exc)]
            (call_onerror onerror exc w3)"
    by (simp add: process_item_def prepend_events_append)
  fix evsH :: "'m event list" and w4
  assume rep: "call_onerror onerror exc w3 = (Returned (), evsH, w4)"
  with it have "process_item onerror ws tf (SessionMessage m) w1 =
        (Returned (),
         HookCall m (Returned (Some m')) # SendCall (ws_id ws) m' (Raised exc) # evsH, w4)"
    by simp
  from forward_messages_step [OF assms this]
  show "forward_messages onerror (ReadStream rid (xs @ SessionMessage m # ys) fin) ws tf w =
            prepend_events
              (evs1 @ [Receive rid, HookCall m (Returned (Some m')),
                       SendCall (ws_id ws) m' (Raised exc)] @ evsH)
              (forward_messages onerror (ReadStream rid ys fin) ws tf w4)"
    by simp
  from call_onerror_returned [OF rep]
  show "evsH = (case onerror of None \<Rightarrow> [] | Some h \<Rightarrow> [OnError exc (Returned ())])" .
qed

text \<open>
  A closed send stream, where every send raises \<open>ClosedResourceError\<close>, and the example
  server's handler: both messages are attempted, both failures are logged, and the loop
  ends only at the end of the stream.
\<close>

lemma send_failure_example:
  "forward_messages (Some handle_error)
       (ReadStream 0 [SessionMessage ''M1'', SessionMessage ''M2''] EndOfStream)
       (WriteStream 1 closed_send) (Some inspect_client_message) []
     = (Returned (),
        [Receive 0, HookCall ''M1'' (Returned (Some ''M1'')),
         SendCall 1 ''M1'' (Raised ClosedResourceError),
         OnError ClosedResourceError (Returned ()),
         Receive 0, HookCall ''M2'' (Returned (Some ''M2'')),
         SendCall 1 ''M2'' (Raised ClosedResourceError),
         OnError ClosedResourceError (Returned ()), Receive 0],
        [ClosedResourceError, ClosedResourceError])"
  by (simp add: process_item_def closed_send_def handle_error_def inspect_client_message_def)

text \<open>
  C6 (send failure): a send that fails is reported, and the loop continues with the
  following items; a send failure never ends the loop. The code does this for every
  handler whose call returns, as shown above, and the report holds for every handler.
  The loop does end on a send failure when the handler raises, since the call of line
  127 is inside no \<open>try\<close> of its own. With a closed send stream and a handler that raises
  what it is given, on the stream \<open>M1\<close>, \<open>M2\<close>: the \<open>ClosedResourceError\<close> of the first
  send is raised again by the handler at line 127, leaves the loop, and is taken for the
  closing of the stream by the clause of line 130; the coroutine returns and \<open>M2\<close> is
  never received. The docstring of \<open>mcp_proxy\<close> (lines 58 and 59) and the comment of line
  128 say that forwarding continues after the call of the handler.
\<close>

theorem send_failure_raising_handler:
  "forward_messages (Some raise_error)
     (ReadStream 0 [SessionMessage ''M1'', SessionMessage ''M2''] EndOfStream)
     (WriteStream 1 closed_send) None ()
   = (Returned (),
      [Receive 0, SendCall 1 ''M1'' (Raised ClosedResourceError),
       OnError ClosedResourceError (Raised ClosedResourceError)],
      ())"
  by (simp add: process_item_def raise_error_def closed_send_def)

subsection \<open>The end of the stream\<close>

text \<open>
  C7 (stream closure). The loop has run over all the items \<open>xs\<close> of the stream, and the
  stream ends by end-of-stream, or is found closed (\<open>ClosedResourceError\<close>, lines 130 to
  132). Then the coroutine returns normally, and after the calls for \<open>xs\<close> it makes the
  last receive and nothing else: the handler is not called.
\<close>

theorem stream_closure_silent:
  fixes ws :: "('m, 'w) write_stream"
  assumes "process_items onerror rid ws tf xs w = (Returned (), evs1, w1)"
      and "fin = EndOfStream \<or> fin = ReceiveRaised ClosedResourceError"
  shows "forward_messages onerror (ReadStream rid xs fin) ws tf w =
         (Returned (), evs1 @ [Receive rid], w1)"
  using forward_messages_append [OF assms(1), of "[]" fin] assms(2) by auto

text \<open>One message, then the end of the stream: the handler's log stays empty.\<close>

theorem stream_closure_silent_witness:
  "process_items (Some handle_error) 0 (WriteStream 1 open_send) None [SessionMessage ''M1''] []
   = (Returned (), [Receive 0, SendCall 1 ''M1'' (Returned ())], [])
   \<and> forward_messages (Some handle_error) (ReadStream 0 [SessionMessage ''M1''] EndOfStream)
       (WriteStream 1 open_send) None []
     = (Returned (), [Receive 0, SendCall 1 ''M1'' (Returned ()), Receive 0], [])
   \<and> forward_messages (Some handle_error)
       (ReadStream 0 [SessionMessage ''M1''] (ReceiveRaised ClosedResourceError))
       (WriteStream 1 open_send) None []
     = (Returned (), [Receive 0, SendCall 1 ''M1'' (Returned ()), Receive 0], [])"
proof -
  have pre: "process_items (Some handle_error) 0 (WriteStream 1 open_send) None
       [SessionMessage ''M1''] []
     = (Returned (), [Receive 0, SendCall 1 ''M1'' (Returned ())], [])"
    by (simp add: process_item_def open_send_def)
  from stream_closure_silent [OF pre, of EndOfStream]
       stream_closure_silent [OF pre, of "ReceiveRaised ClosedResourceError"] pre
  show ?thesis by simp
qed

subsection \<open>A task is forward_messages, one await at a time\<close>

text \<open>
  Run on its own in a scope that is not cancelled, a task ends as \<open>forward_messages\<close>
  ends, with the calls \<open>forward_messages\<close> makes and in the environment it leaves.
\<close>

lemma finish_prepend:
  "finish onerror (Task p xs fin (cs @ evs0)) res =
   finish onerror (Task p xs fin cs) (prepend_events evs0 res)"
proof -
  obtain r evs w where "outer_except onerror res = (r, evs, w)"
    by (cases "outer_except onerror res")
  then show ?thesis by (simp add: outer_except_prepend)
qed

lemma resume_prepend:
  "resume onerror (Task p xs fin (cs @ evs0)) res =
   resume onerror (Task p xs fin cs) (prepend_events evs0 res)"
proof -
  obtain r evs w where res: "res = (r, evs, w)" by (cases res)
  show ?thesis
  proof (cases r)
    case (Returned u)
    with res show ?thesis by simp
  next
    case (Raised exc)
    with res finish_prepend [of onerror p xs fin cs evs0 res] show ?thesis by simp
  next
    case Cancelled
    with res finish_prepend [of onerror p xs fin cs evs0 res] show ?thesis by simp
  qed
qed

lemma run_task_0_case [simp]:
  "(case p of (t, w) \<Rightarrow> run_task onerror rid ws tf 0 t w) = p"
  by (cases p) simp

lemma run_task_add:
  "run_task onerror rid ws tf (a + b) t w =
   (case run_task onerror rid ws tf a t w of (t', w') \<Rightarrow> run_task onerror rid ws tf b t' w')"
  by (induction a arbitrary: t w) (auto split: prod.splits)

lemma run_task_finished:
  "run_task onerror rid ws tf n (Task (Finished r) xs fin cs) w = (Task (Finished r) xs fin cs, w)"
  by (induction n) auto

lemma one_iteration:
  "\<exists>k. run_task onerror rid ws tf k (Task AtReceive (x # xs) fin cs) w =
        resume onerror (Task AtReceive xs fin cs)
          (prepend_events [Receive rid] (process_item onerror ws tf x w))"
proof (cases x)
  case (TransportError exc)
  have "run_task onerror rid ws tf (Suc 0) (Task AtReceive (x # xs) fin cs) w =
        resume onerror (Task AtReceive xs fin cs)
          (prepend_events [Receive rid] (process_item onerror ws tf x w))"
    using TransportError by (simp add: process_item_inner split: prod.splits)
  then show ?thesis by blast
next
  case (SessionMessage m)
  show ?thesis
  proof (cases tf)
    case None
    have "run_task onerror rid ws tf (Suc (Suc 0)) (Task AtReceive (x # xs) fin cs) w =
        resume onerror (Task AtReceive xs fin cs)
          (prepend_events [Receive rid] (process_item onerror ws tf x w))"
      using SessionMessage None
      by (simp add: process_item_inner resume_prepend split: prod.splits)
    then show ?thesis by blast
  next
    case (Some f)
    obtain hr w1 where h: "f m w = (hr, w1)" by (cases "f m w")
    show ?thesis
    proof (cases "\<exists>m'. hr = Returned (Some m')")
      case True
      then obtain m' where hr: "hr = Returned (Some m')" by blast
      have step: "run_task onerror rid ws tf (Suc (Suc (Suc 0))) (Task AtReceive (x # xs) fin cs) w =
        resume onerror (Task AtReceive xs fin ((cs @ [Receive rid]) @ [HookCall m hr]))
          (inner_except onerror (send_message ws m' w1))"
        using SessionMessage Some h hr by simp
      have "process_item onerror ws tf x w =
        prepend_events [HookCall m hr] (inner_except onerror (send_message ws m' w1))"
        using SessionMessage Some h hr
        by (simp add: process_item_inner inner_except_prepend del: send_message.simps)
      then have "run_task onerror rid ws tf (Suc (Suc (Suc 0))) (Task AtReceive (x # xs) fin cs) w =
        resume onerror (Task AtReceive xs fin cs)
          (prepend_events [Receive rid] (process_item onerror ws tf x w))"
        unfolding step resume_prepend by (simp add: prepend_events_append)
      then show ?thesis by blast
    next
      case False
      have "run_task onerror rid ws tf (Suc (Suc 0)) (Task AtReceive (x # xs) fin cs) w =
        resume onerror (Task AtReceive xs fin cs)
          (prepend_events [Receive rid] (process_item onerror ws tf x w))"
        using SessionMessage Some h False
        by (cases hr) (auto simp: process_item_inner resume_prepend split: prod.splits option.splits)
      then show ?thesis by blast
    qed
  qed
qed


lemma forward_messages_Cons:
  assumes "process_item onerror ws tf x w = (Returned (), evs1, w1)"
  shows "forward_messages onerror (ReadStream rid (x # xs) fin) ws tf w =
         prepend_events (Receive rid # evs1) (forward_messages onerror (ReadStream rid xs fin) ws tf w1)"
  using forward_messages_step [of onerror rid ws tf "[]" w "[]" w x evs1 w1 xs fin] assms by simp

lemma task_alone:
  assumes "forward_messages onerror (ReadStream rid items fin) ws tf w = (r, evs, w')"
  shows "\<exists>n rest. run_task onerror rid ws tf n (Task AtReceive items fin cs) w =
           (Task (Finished r) rest fin (cs @ evs), w')"
  using assms
proof (induction items arbitrary: w r evs w' cs)
  case Nil
  then have "outer_except onerror (forward_loop onerror rid ws tf [] fin w) = (r, evs, w')"
    by (simp only: forward_messages_outer)
  then have "run_task onerror rid ws tf (Suc 0) (Task AtReceive [] fin cs) w =
             (Task (Finished r) [] fin (cs @ evs), w')"
    by simp
  then show ?case by blast
next
  case (Cons x xs)
  obtain r1 evs1 w1 where p: "process_item onerror ws tf x w = (r1, evs1, w1)"
    by (cases "process_item onerror ws tf x w")
  from one_iteration [of onerror rid ws tf x xs fin cs w] p
  obtain k where k: "run_task onerror rid ws tf k (Task AtReceive (x # xs) fin cs) w =
        resume onerror (Task AtReceive xs fin cs) (r1, Receive rid # evs1, w1)"
    by auto
  show ?case
  proof (cases "r1 = Returned ()")
    case True
    with p have p': "process_item onerror ws tf x w = (Returned (), evs1, w1)" by simp
    obtain r2 evs2 w2
      where f2: "forward_messages onerror (ReadStream rid xs fin) ws tf w1 = (r2, evs2, w2)"
      by (cases "forward_messages onerror (ReadStream rid xs fin) ws tf w1")
    from Cons.prems forward_messages_Cons [OF p', of rid xs fin] f2
    have "r2 = r" "w2 = w'" and e: "evs = Receive rid # evs1 @ evs2"
      by (simp_all del: forward_messages.simps)
    with f2 have f: "forward_messages onerror (ReadStream rid xs fin) ws tf w1 = (r, evs2, w')"
      by simp
    from Cons.IH [OF f, of "cs @ Receive rid # evs1"]
    obtain n rest where n: "run_task onerror rid ws tf n
        (Task AtReceive xs fin (cs @ Receive rid # evs1)) w1 =
        (Task (Finished r) rest fin ((cs @ Receive rid # evs1) @ evs2), w')"
      by blast
    from k True n e
    have "run_task onerror rid ws tf (k + n) (Task AtReceive (x # xs) fin cs) w =
          (Task (Finished r) rest fin (cs @ evs), w')"
      by (simp add: run_task_add)
    then show ?thesis by blast
  next
    case False
    with p have l: "forward_loop onerror rid ws tf (x # xs) fin w = (r1, Receive rid # evs1, w1)"
      by (cases r1) auto
    with Cons.prems have o: "outer_except onerror (r1, Receive rid # evs1, w1) = (r, evs, w')"
      by (simp only: forward_messages_outer)
    from False have "resume onerror (Task AtReceive xs fin cs) (r1, Receive rid # evs1, w1) =
          finish onerror (Task AtReceive xs fin cs) (r1, Receive rid # evs1, w1)"
      by (cases r1) auto
    with k o have "run_task onerror rid ws tf k (Task AtReceive (x # xs) fin cs) w =
          (Task (Finished r) xs fin (cs @ evs), w')"
      by simp
    then show ?thesis by blast
  qed
qed

text \<open>
  So it is in a session: when only the client-to-server task is run, it ends as
  \<open>forward_messages\<close> ends on \<open>client_read\<close> and \<open>server_write\<close>, and the scope is cancelled
  exactly when it ended by raising.
\<close>

lemma task_step_finished_any:
  "ended_by_raising c \<Longrightarrow> task_step onerror rid ws tf cancelled c w = (c, w)"
  by (induction c rule: ended_by_raising.induct) auto

lemma client_steps:
  assumes "cancelled = ended_by_raising c"
  shows "run_session (client_read, client_write) (server_read, server_write) onerror
           on_client_message on_server_message (replicate n RunClientToServer)
           (Session cancelled c s w) =
         (case run_task onerror (rs_id client_read) server_write on_client_message n c w of
            (c', w') \<Rightarrow> Session (ended_by_raising c') c' s w')"
  using assms
proof (induction n arbitrary: cancelled c w)
  case 0
  then show ?case by simp
next
  case (Suc n)
  obtain c1 w1 where t: "task_step onerror (rs_id client_read) server_write on_client_message
      False c w = (c1, w1)"
    by (cases "task_step onerror (rs_id client_read) server_write on_client_message False c w")
  have t': "task_step onerror (rs_id client_read) server_write on_client_message
      cancelled c w = (c1, w1)"
  proof (cases cancelled)
    case True
    with Suc.prems have "ended_by_raising c" by simp
    from task_step_finished_any [OF this, of onerror "rs_id client_read" server_write
        on_client_message cancelled w]
      task_step_finished_any [OF this, of onerror "rs_id client_read" server_write
        on_client_message False w] t
    show ?thesis by simp
  next
    case False
    with t show ?thesis by simp
  qed
  have c1: "(cancelled \<or> ended_by_raising c1) = ended_by_raising c1"
  proof (cases cancelled)
    case True
    with Suc.prems have e: "ended_by_raising c" by simp
    from task_step_finished_any [OF e, of onerror "rs_id client_read" server_write
        on_client_message False w] t e True
    show ?thesis by simp
  qed simp
  from Suc.IH [of "ended_by_raising c1" c1 w1] t t' c1 show ?case by simp
qed

lemma session_runs_forward_messages:
  fixes server_write :: "('m, 'w) write_stream"
  assumes "forward_messages onerror (ReadStream rid items fin) server_write
             on_client_message w = (r, evs, w')"
  shows "\<exists>n rest. mcp_proxy (ReadStream rid items fin, client_write) (server_read, server_write)
           onerror on_client_message on_server_message (replicate n RunClientToServer) w =
         Session (ended_by_raising (Task (Finished r) rest fin evs))
           (Task (Finished r) rest fin evs) (start_task server_read) w'"
proof -
  from task_alone [OF assms, of "[]"]
  obtain n rest where n: "run_task onerror rid server_write on_client_message n
      (Task AtReceive items fin []) w = (Task (Finished r) rest fin evs, w')"
    by auto
  have "mcp_proxy (ReadStream rid items fin, client_write) (server_read, server_write)
           onerror on_client_message on_server_message (replicate n RunClientToServer) w =
         Session (ended_by_raising (Task (Finished r) rest fin evs))
           (Task (Finished r) rest fin evs) (start_task server_read) w'"
    using client_steps [of False "Task AtReceive items fin []" "ReadStream rid items fin"
        client_write server_read server_write onerror on_client_message on_server_message n
        "start_task server_read" w] n
    by (simp add: mcp_proxy_def)
  then show ?thesis by blast
qed

subsection \<open>A failing receive\<close>

text \<open>
  The loop has run over the items \<open>xs\<close> and the next receive raises \<open>exc\<close>, which is not
  \<open>ClosedResourceError\<close>. For every handler, the coroutine makes the report of \<open>exc\<close> (one
  call of the handler when a handler is configured, nothing otherwise) and ends as the
  report ends: by returning when the report returns.
\<close>

lemma receive_failure_reported_once:
  fixes ws :: "('m, 'w) write_stream"
  assumes "process_items onerror rid ws tf xs w = (Returned (), evs1, w1)"
      and "exc \<noteq> ClosedResourceError"
  shows "forward_messages onerror (ReadStream rid xs (ReceiveRaised exc)) ws tf w =
         prepend_events (evs1 @ [Receive rid]) (call_onerror onerror exc w1)"
  using forward_messages_append [OF assms(1), of "[]" "ReceiveRaised exc"] assms(2)
  by (simp add: prepend_events_append)

text \<open>
  In a session whose scope is not cancelled, with the client-to-server task at such a
  receive and a report that returns: the task ends by returning, the scope stays as it
  is, and the server-to-client task is left as it is.
\<close>

lemma receive_failure_returning_handler:
  fixes server_write :: "('m, 'w) write_stream"
  assumes "exc \<noteq> ClosedResourceError"
      and "call_onerror onerror exc w = (Returned (), evsH, w2)"
  shows "session_step (client_read, client_write) (server_read, server_write) onerror
           on_client_message on_server_message RunClientToServer
           (Session False (Task AtReceive [] (ReceiveRaised exc) cs) s w)
         = Session False (Task (Finished (Returned ())) [] (ReceiveRaised exc)
             (cs @ Receive (rs_id client_read) # evsH)) s w2
       \<and> evsH = (case onerror of None \<Rightarrow> [] | Some h \<Rightarrow> [OnError exc (Returned ())])"
  using assms call_onerror_returned [OF assms(2)] by simp


text \<open>
  C10 (failure of the receive): the exception is reported once, the loop of that
  direction ends, and the other direction is unaffected. The code does this for every
  handler whose call returns, as shown above. The call of line 136 is inside no \<open>try\<close>,
  so the exception of a handler that raises there leaves the coroutine and its task, and
  the task group cancels the other direction. With a handler that raises what it is
  given, a client stream whose receive fails and a server stream that holds \<open>S1\<close>: the
  client-to-server task ends by raising, the scope is cancelled, and the
  server-to-client task ends by the cancellation at its receive, with \<open>S1\<close> never
  received. The docstring of \<open>mcp_proxy\<close> says that the proxy continues forwarding other
  messages after calling the callback (lines 58 and 59).
\<close>

theorem receive_failure_raising_handler:
  "mcp_proxy
     (ReadStream 0 [] (ReceiveRaised (OtherException ''boom'')), WriteStream 1 open_send)
     (ReadStream 2 [SessionMessage ''S1''] EndOfStream, WriteStream 3 open_send)
     (Some raise_error) None None [RunClientToServer, RunServerToClient] ()
   = Session True
       (Task (Finished (Raised (OtherException ''boom''))) []
          (ReceiveRaised (OtherException ''boom''))
          [Receive 0, OnError (OtherException ''boom'') (Raised (OtherException ''boom''))])
       (Task (Finished Cancelled) [SessionMessage ''S1''] EndOfStream [Receive 2]) ()"
  by (simp add: mcp_proxy_def raise_error_def)

subsection \<open>The calls a session makes on its streams\<close>

lemma call_onerror_calls:
  "call_onerror onerror exc w = (r, evs, w') \<Longrightarrow> list_all (reads_and_sends rid wid) evs"
  by (cases onerror) (auto split: prod.splits)

lemma try_body_calls:
  "try_body onerror ws tf x w = (r, evs, w') \<Longrightarrow> list_all (reads_and_sends rid (ws_id ws)) evs"
proof (induction onerror ws tf x w rule: try_body.induct)
  case (1 onerror ws tf exc w)
  then show ?case using call_onerror_calls by fastforce
next
  case (2 onerror ws m w)
  then show ?case by (auto split: prod.splits)
next
  case (3 onerror ws f m w)
  then show ?case
    by (auto simp: prepend_events_eq split: prod.splits outcome.splits option.splits)
qed

lemma process_item_calls:
  assumes "process_item onerror ws tf x w = (r, evs, w')"
  shows "list_all (reads_and_sends rid (ws_id ws)) evs"
proof -
  obtain r0 evs0 w0 where t: "try_body onerror ws tf x w = (r0, evs0, w0)"
    by (cases "try_body onerror ws tf x w")
  note b = try_body_calls [OF t, of rid]
  show ?thesis
  proof (cases r0)
    case (Raised exc)
    with assms t obtain es where "call_onerror onerror exc w0 = (r, es, w')" "evs = evs0 @ es"
      by (auto simp: process_item_def prepend_events_eq)
    with b call_onerror_calls [of onerror exc w0 r es w' rid "ws_id ws"] show ?thesis by simp
  qed (use assms t b in \<open>auto simp: process_item_def\<close>)
qed

lemma forward_loop_calls:
  "forward_loop onerror rid ws tf xs fin w = (r, evs, w') \<Longrightarrow>
   list_all (reads_and_sends rid (ws_id ws)) evs"
proof (induction xs arbitrary: w r evs w')
  case Nil
  then show ?case by auto
next
  case (Cons x xs)
  obtain r0 evs0 w0 where p: "process_item onerror ws tf x w = (r0, evs0, w0)"
    by (cases "process_item onerror ws tf x w")
  note b = process_item_calls [OF p, of rid]
  show ?case
  proof (cases r0)
    case (Returned u)
    with Cons.prems p obtain es where l: "forward_loop onerror rid ws tf xs fin w0 = (r, es, w')"
      and e: "evs = Receive rid # evs0 @ es"
      by (auto simp: prepend_events_eq)
    from Cons.IH [OF l] b e show ?thesis by simp
  qed (use Cons.prems p b in auto)
qed

lemma forward_messages_calls:
  assumes "forward_messages onerror rs ws tf w = (r, evs, w')"
  shows "list_all (reads_and_sends (rs_id rs) (ws_id ws)) evs"
proof (cases rs)
  case (ReadStream rid items fin)
  obtain r0 evs0 w0 where l: "forward_loop onerror rid ws tf items fin w = (r0, evs0, w0)"
    by (cases "forward_loop onerror rid ws tf items fin w")
  note b = forward_loop_calls [OF l]
  show ?thesis
  proof (cases "\<exists>exc. r0 = Raised exc \<and> exc \<noteq> ClosedResourceError")
    case True
    then obtain exc where r0: "r0 = Raised exc" "exc \<noteq> ClosedResourceError" by blast
    with assms l ReadStream obtain es
      where "call_onerror onerror exc w0 = (r, es, w')" "evs = evs0 @ es"
      by (auto simp: prepend_events_eq)
    with b call_onerror_calls [of onerror exc w0 r es w' rid "ws_id ws"] ReadStream
    show ?thesis by simp
  next
    case False
    with assms l ReadStream have "evs = evs0" by (auto split: outcome.splits if_splits)
    with b ReadStream show ?thesis by simp
  qed
qed

lemma reads_and_sends_set:
  assumes "list_all (reads_and_sends rid wid) evs"
  shows "(\<forall>s. Close s \<notin> set evs) \<and> (\<forall>s. Receive s \<in> set evs \<longrightarrow> s = rid)
       \<and> (\<forall>s m r. SendCall s m r \<in> set evs \<longrightarrow> s = wid)"
  using assms by (auto simp: list_all_iff)


lemma inner_except_calls:
  assumes "inner_except onerror (r, evs, w) = (r', evs', w')"
      and "list_all (reads_and_sends rid wid) evs"
  shows "list_all (reads_and_sends rid wid) evs'"
proof (cases r)
  case (Raised exc)
  with assms(1) obtain es where "call_onerror onerror exc w = (r', es, w')" "evs' = evs @ es"
    by (auto simp: prepend_events_eq)
  with assms(2) call_onerror_calls [of onerror exc w r' es w' rid wid] show ?thesis by simp
qed (use assms in auto)

lemma outer_except_calls:
  assumes "outer_except onerror (r, evs, w) = (r', evs', w')"
      and "list_all (reads_and_sends rid wid) evs"
  shows "list_all (reads_and_sends rid wid) evs'"
proof (cases r)
  case (Raised exc)
  show ?thesis
  proof (cases "exc = ClosedResourceError")
    case True
    with Raised assms show ?thesis by auto
  next
    case False
    with Raised assms(1) obtain es where "call_onerror onerror exc w = (r', es, w')" "evs' = evs @ es"
      by (auto simp: prepend_events_eq)
    with assms(2) call_onerror_calls [of onerror exc w r' es w' rid wid] show ?thesis by simp
  qed
qed (use assms in auto)

lemma finish_calls:
  assumes "finish onerror t (r, evs, w) = (t', w')"
      and "list_all (reads_and_sends rid wid) (calls t)"
      and "list_all (reads_and_sends rid wid) evs"
  shows "list_all (reads_and_sends rid wid) (calls t')"
proof -
  obtain p xs fin cs where t: "t = Task p xs fin cs" by (cases t)
  obtain r2 evs2 w2 where o: "outer_except onerror (r, evs, w) = (r2, evs2, w2)"
    by (cases "outer_except onerror (r, evs, w)")
  from outer_except_calls [OF o assms(3)] assms(1,2) t o show ?thesis by auto
qed

lemma resume_calls:
  assumes "resume onerror t (r, evs, w) = (t', w')"
      and "list_all (reads_and_sends rid wid) (calls t)"
      and "list_all (reads_and_sends rid wid) evs"
  shows "list_all (reads_and_sends rid wid) (calls t')"
proof -
  obtain p xs fin cs where t: "t = Task p xs fin cs" by (cases t)
  show ?thesis
  proof (cases r)
    case (Returned u)
    with assms t show ?thesis by auto
  next
    case (Raised exc)
    with assms(1) t have "finish onerror t (r, evs, w) = (t', w')" by simp
    from finish_calls [OF this assms(2,3)] show ?thesis .
  next
    case Cancelled
    with assms(1) t have "finish onerror t (r, evs, w) = (t', w')" by simp
    from finish_calls [OF this assms(2,3)] show ?thesis .
  qed
qed

lemma task_step_calls:
  assumes "task_step onerror rid ws tf cancelled t w = (t', w')"
      and "list_all (reads_and_sends rid (ws_id ws)) (calls t)"
  shows "list_all (reads_and_sends rid (ws_id ws)) (calls t')"
  using assms
proof (induction onerror rid ws tf cancelled t w rule: task_step.induct)
  case (5 onerror rid ws tf fin cs w)
  then show ?case using finish_calls [of onerror "Task AtReceive [] fin cs" "end_outcome fin"
        "[Receive rid]" w t' w' rid "ws_id ws"] by simp
next
  case (6 onerror rid ws tf exc xs fin cs w)
  obtain r1 evs1 w1 where c: "inner_except onerror (call_onerror onerror exc w) = (r1, evs1 :: 'a event list, w1)"
    by (cases "inner_except onerror (call_onerror onerror exc w) :: ('a, 'b) result")
  obtain r0 evs0 w0 where c0: "call_onerror onerror exc w = (r0, evs0 :: 'a event list, w0)"
    by (cases "call_onerror onerror exc w :: ('a, 'b) result")
  from call_onerror_calls [OF c0] have "list_all (reads_and_sends rid (ws_id ws)) evs0" .
  from inner_except_calls [OF c [unfolded c0] this]
  have "list_all (reads_and_sends rid (ws_id ws)) (Receive rid # evs1)" by simp
  with 6 c resume_calls [of onerror "Task AtReceive xs fin cs" r1 "Receive rid # evs1" w1 t' w'
      rid "ws_id ws"]
  show ?case by simp
next
  case (9 onerror rid ws f m xs fin cs w)
  obtain hr w1 where h: "f m w = (hr, w1)" by (cases "f m w")
  show ?case
  proof (cases hr)
    case (Returned mo)
    show ?thesis
    proof (cases mo)
      case None
      with 9 h Returned show ?thesis by auto
    next
      case (Some m')
      with 9 h Returned show ?thesis by auto
    qed
  next
    case (Raised exc)
    obtain r1 evs1 w2 where c: "inner_except onerror (Raised exc, [HookCall m (Raised exc)], w1)
        = (r1, evs1, w2)"
      by (cases "inner_except onerror (Raised exc, [HookCall m (Raised exc)], w1)")
    from inner_except_calls [OF c, of rid "ws_id ws"]
    have "list_all (reads_and_sends rid (ws_id ws)) evs1" by simp
    with 9 h Raised c resume_calls [of onerror "Task AtReceive xs fin cs" r1 evs1 w2 t' w'
      rid "ws_id ws"]
    show ?thesis by simp
  next
    case Cancelled
    with 9 h show ?thesis by auto
  qed
next
  case (10 onerror rid ws tf m xs fin cs w)
  obtain sr w1 where sn: "ws_send ws m w = (sr, w1)" by (cases "ws_send ws m w")
  obtain r1 evs1 w2 where c: "inner_except onerror (sr, [SendCall (ws_id ws) m sr], w1)
        = (r1, evs1, w2)"
    by (cases "inner_except onerror (sr, [SendCall (ws_id ws) m sr], w1)")
  from inner_except_calls [OF c, of rid "ws_id ws"]
  have "list_all (reads_and_sends rid (ws_id ws)) evs1" by simp
  with 10 sn c resume_calls [of onerror "Task AtReceive xs fin cs" r1 evs1 w2 t' w'
      rid "ws_id ws"]
  show ?case by simp
qed auto


lemma run_session_append:
  "run_session cst sst onerror ocm osm (a @ b) st =
   run_session cst sst onerror ocm osm b (run_session cst sst onerror ocm osm a st)"
  by (induction a arbitrary: st) auto

lemma session_step_calls:
  fixes client_write :: "('m, 'w) write_stream"
  assumes "list_all (reads_and_sends (rs_id client_read) (ws_id server_write))
             (calls (client_to_server st))"
      and "list_all (reads_and_sends (rs_id server_read) (ws_id client_write))
             (calls (server_to_client st))"
      and "st' = session_step (client_read, client_write) (server_read, server_write) onerror
             ocm osm mv st"
  shows "list_all (reads_and_sends (rs_id client_read) (ws_id server_write))
             (calls (client_to_server st'))
       \<and> list_all (reads_and_sends (rs_id server_read) (ws_id client_write))
             (calls (server_to_client st'))"
proof -
  obtain cancelled c s w where st: "st = Session cancelled c s w" by (cases st)
  show ?thesis
  proof (cases mv)
    case RunClientToServer
    obtain c' w' where t: "task_step onerror (rs_id client_read) server_write ocm cancelled c w
        = (c', w')"
      by (cases "task_step onerror (rs_id client_read) server_write ocm cancelled c w")
    from task_step_calls [OF t] assms st t RunClientToServer show ?thesis by simp
  next
    case RunServerToClient
    obtain s' w' where t: "task_step onerror (rs_id server_read) client_write osm cancelled s w
        = (s', w')"
      by (cases "task_step onerror (rs_id server_read) client_write osm cancelled s w")
    from task_step_calls [OF t] assms st t RunServerToClient show ?thesis by simp
  next
    case ExitScope
    with assms st show ?thesis by simp
  qed
qed

lemma run_session_calls:
  fixes client_write :: "('m, 'w) write_stream"
  assumes "list_all (reads_and_sends (rs_id client_read) (ws_id server_write))
             (calls (client_to_server st))"
      and "list_all (reads_and_sends (rs_id server_read) (ws_id client_write))
             (calls (server_to_client st))"
  shows "list_all (reads_and_sends (rs_id client_read) (ws_id server_write))
           (calls (client_to_server
              (run_session (client_read, client_write) (server_read, server_write) onerror
                 ocm osm schedule st)))
       \<and> list_all (reads_and_sends (rs_id server_read) (ws_id client_write))
           (calls (server_to_client
              (run_session (client_read, client_write) (server_read, server_write) onerror
                 ocm osm schedule st)))"
  using assms
proof (induction schedule arbitrary: st)
  case Nil
  then show ?case by simp
next
  case (Cons mv schedule)
  from session_step_calls [OF Cons.prems refl, where onerror = onerror and ocm = ocm
      and osm = osm and mv = mv]
  have "list_all (reads_and_sends (rs_id client_read) (ws_id server_write))
          (calls (client_to_server (session_step (client_read, client_write)
             (server_read, server_write) onerror ocm osm mv st)))"
    and "list_all (reads_and_sends (rs_id server_read) (ws_id client_write))
          (calls (server_to_client (session_step (client_read, client_write)
             (server_read, server_write) onerror ocm osm mv st)))"
    by simp_all
  from Cons.IH [OF this] show ?case by simp
qed

text \<open>
  C9 (the streams are left as they were given). At every moment of a session, whatever
  the schedule, whatever the streams deliver and whatever the hooks, the handler and the
  sends do: neither task has made a \<open>Close\<close> call; the client-to-server task has received
  on \<open>client_read\<close> only and sent on \<open>server_write\<close> only; the server-to-client task has
  received on \<open>server_read\<close> only and sent on \<open>client_write\<close> only. \<open>mcp_proxy\<close> itself
  makes no call on a stream, on entry or on exit.
\<close>

theorem streams_never_closed:
  fixes client_write :: "('m, 'w) write_stream"
  assumes "mcp_proxy (client_read, client_write) (server_read, server_write) onerror
             on_client_message on_server_message schedule w = st"
  shows "(\<forall>x. Close x \<notin> set (calls (client_to_server st)) \<union> set (calls (server_to_client st)))
       \<and> (\<forall>x. Receive x \<in> set (calls (client_to_server st)) \<longrightarrow> x = rs_id client_read)
       \<and> (\<forall>x m r. SendCall x m r \<in> set (calls (client_to_server st))
            \<longrightarrow> x = ws_id server_write)
       \<and> (\<forall>x. Receive x \<in> set (calls (server_to_client st)) \<longrightarrow> x = rs_id server_read)
       \<and> (\<forall>x m r. SendCall x m r \<in> set (calls (server_to_client st))
            \<longrightarrow> x = ws_id client_write)"
proof -
  have c0: "calls (start_task client_read) = []" by (cases client_read) simp
  have s0: "calls (start_task server_read) = []" by (cases server_read) simp
  from run_session_calls [where client_read = client_read and server_write = server_write
      and st = "Session False (start_task client_read) (start_task server_read) w"
      and server_read = server_read and client_write = client_write and onerror = onerror
      and ocm = on_client_message and osm = on_server_message and schedule = schedule]
    c0 s0 assms
  have "list_all (reads_and_sends (rs_id client_read) (ws_id server_write))
          (calls (client_to_server st))"
    and "list_all (reads_and_sends (rs_id server_read) (ws_id client_write))
          (calls (server_to_client st))"
    by (simp_all add: mcp_proxy_def)
  from reads_and_sends_set [OF this(1)] reads_and_sends_set [OF this(2)]
  show ?thesis by blast
qed


text \<open>
  A session with the example server's callbacks, run to the end of both tasks: a request
  from the client; a response and a transport error from the server, whose stream is
  then found closed.
\<close>

theorem streams_never_closed_witness:
  "mcp_proxy
     (ReadStream 0 [SessionMessage ''R1''] EndOfStream, WriteStream 1 open_send)
     (ReadStream 2 [SessionMessage ''S1'', TransportError BrokenResourceError]
        (ReceiveRaised ClosedResourceError),
      WriteStream 3 open_send)
     (Some handle_error) (Some inspect_client_message) None
     [RunClientToServer, RunServerToClient, RunClientToServer, RunServerToClient,
      RunClientToServer, RunServerToClient, RunClientToServer, RunServerToClient,
      ExitScope] []
   = Session True
       (Task (Finished (Returned ())) [] EndOfStream
          [Receive 0, HookCall ''R1'' (Returned (Some ''R1'')),
           SendCall 3 ''R1'' (Returned ()), Receive 0])
       (Task (Finished (Returned ())) [] (ReceiveRaised ClosedResourceError)
          [Receive 2, SendCall 1 ''S1'' (Returned ()),
           Receive 2, OnError BrokenResourceError (Returned ()), Receive 2])
       [BrokenResourceError]
   \<and> (\<forall>x. Close x \<notin>
        set [Receive 0, HookCall ''R1'' (Returned (Some ''R1'')),
             SendCall 3 ''R1'' (Returned ()), Receive 0]
        \<union> set [Receive 2, SendCall 1 ''S1'' (Returned ()),
               Receive 2, OnError BrokenResourceError (Returned ()), Receive 2])"
proof -
  have run: "mcp_proxy
     (ReadStream 0 [SessionMessage ''R1''] EndOfStream, WriteStream 1 open_send)
     (ReadStream 2 [SessionMessage ''S1'', TransportError BrokenResourceError]
        (ReceiveRaised ClosedResourceError),
      WriteStream 3 open_send)
     (Some handle_error) (Some inspect_client_message) None
     [RunClientToServer, RunServerToClient, RunClientToServer, RunServerToClient,
      RunClientToServer, RunServerToClient, RunClientToServer, RunServerToClient,
      ExitScope] []
   = Session True
       (Task (Finished (Returned ())) [] EndOfStream
          [Receive 0, HookCall ''R1'' (Returned (Some ''R1'')),
           SendCall 3 ''R1'' (Returned ()), Receive 0])
       (Task (Finished (Returned ())) [] (ReceiveRaised ClosedResourceError)
          [Receive 2, SendCall 1 ''S1'' (Returned ()),
           Receive 2, OnError BrokenResourceError (Returned ()), Receive 2])
       [BrokenResourceError]"
    by (simp add: mcp_proxy_def open_send_def handle_error_def inspect_client_message_def)
  from streams_never_closed [OF run] run show ?thesis by simp
qed

subsection \<open>Leaving the scope\<close>

lemma task_step_cancelled:
  assumes "task_step onerror rid ws tf True t w = (t', w')"
  shows "w' = w \<and> inbound t' = inbound t \<and> sent (calls t') = sent (calls t)
       \<and> reported (calls t') = reported (calls t) \<and> at t' = after_cancel (at t)"
proof -
  obtain p xs fin cs where t: "t = Task p xs fin cs" by (cases t)
  from assms t show ?thesis by (cases p) (auto simp: sent_def reported_def)
qed

lemma session_step_cancelled:
  assumes "cancel_called st"
      and "st' = session_step (client_read, client_write) (server_read, server_write) onerror
             ocm osm mv st"
  shows "cancel_called st' \<and> env st' = env st
       \<and> inbound (client_to_server st') = inbound (client_to_server st)
       \<and> inbound (server_to_client st') = inbound (server_to_client st)
       \<and> sent (calls (client_to_server st')) = sent (calls (client_to_server st))
       \<and> sent (calls (server_to_client st')) = sent (calls (server_to_client st))
       \<and> reported (calls (client_to_server st')) = reported (calls (client_to_server st))
       \<and> reported (calls (server_to_client st')) = reported (calls (server_to_client st))
       \<and> at (client_to_server st') =
           (if mv = RunClientToServer then after_cancel (at (client_to_server st))
            else at (client_to_server st))
       \<and> at (server_to_client st') =
           (if mv = RunServerToClient then after_cancel (at (server_to_client st))
            else at (server_to_client st))"
proof -
  obtain cancelled c s w where st: "st = Session cancelled c s w" by (cases st)
  with assms(1) have cancelled: "cancelled = True" by simp
  show ?thesis
  proof (cases mv)
    case RunClientToServer
    obtain c' w' where t: "task_step onerror (rs_id client_read) server_write ocm True c w
        = (c', w')"
      by (cases "task_step onerror (rs_id client_read) server_write ocm True c w")
    from task_step_cancelled [OF t] assms(2) st cancelled t RunClientToServer
    show ?thesis by simp
  next
    case RunServerToClient
    obtain s' w' where t: "task_step onerror (rs_id server_read) client_write osm True s w
        = (s', w')"
      by (cases "task_step onerror (rs_id server_read) client_write osm True s w")
    from task_step_cancelled [OF t] assms(2) st cancelled t RunServerToClient
    show ?thesis by simp
  next
    case ExitScope
    with assms st show ?thesis by simp
  qed
qed

lemma after_cancel_idem [simp]: "after_cancel (after_cancel p) = after_cancel p"
  by (cases p) auto

lemma run_session_cancelled:
  assumes "cancel_called st"
      and "st' = run_session (client_read, client_write) (server_read, server_write) onerror
             ocm osm schedule st"
  shows "cancel_called st' \<and> env st' = env st
       \<and> inbound (client_to_server st') = inbound (client_to_server st)
       \<and> inbound (server_to_client st') = inbound (server_to_client st)
       \<and> sent (calls (client_to_server st')) = sent (calls (client_to_server st))
       \<and> sent (calls (server_to_client st')) = sent (calls (server_to_client st))
       \<and> reported (calls (client_to_server st')) = reported (calls (client_to_server st))
       \<and> reported (calls (server_to_client st')) = reported (calls (server_to_client st))
       \<and> at (client_to_server st') =
           (if RunClientToServer \<in> set schedule then after_cancel (at (client_to_server st))
            else at (client_to_server st))
       \<and> at (server_to_client st') =
           (if RunServerToClient \<in> set schedule then after_cancel (at (server_to_client st))
            else at (server_to_client st))"
  using assms
proof (induction schedule arbitrary: st st')
  case Nil
  then show ?case by simp
next
  case (Cons mv schedule)
  let ?st1 = "session_step (client_read, client_write) (server_read, server_write) onerror
             ocm osm mv st"
  note a = session_step_cancelled [OF Cons.prems(1) refl, where client_read = client_read
      and client_write = client_write and server_read = server_read
      and server_write = server_write and onerror = onerror and ocm = ocm and osm = osm
      and mv = mv]
  from a have c1: "cancel_called ?st1" by simp
  from Cons.prems(2) have "st' = run_session (client_read, client_write)
      (server_read, server_write) onerror ocm osm schedule ?st1"
    by simp
  note b = Cons.IH [OF c1 this]
  from a b show ?case by (cases mv) auto
qed


text \<open>
  C8 (cancellation completeness). Take a session at any moment (after any schedule
  \<open>before\<close>), let the caller leave the block there, and look at it at any later moment
  (after any schedule \<open>after\<close>). Then on neither send stream has a further message been
  sent; the handler has not been called again, so the cancellation is not reported; the
  items still held by the two receive streams are still there; and each task that has
  run since is ended: as it had ended before, or else by the cancellation.
\<close>

theorem cancellation_completeness:
  fixes client_write :: "('m, 'w) write_stream"
  assumes "mcp_proxy (client_read, client_write) (server_read, server_write) onerror
             on_client_message on_server_message before w = st1"
      and "mcp_proxy (client_read, client_write) (server_read, server_write) onerror
             on_client_message on_server_message (before @ ExitScope # after) w = st2"
  shows "sent (calls (client_to_server st2)) = sent (calls (client_to_server st1))
       \<and> sent (calls (server_to_client st2)) = sent (calls (server_to_client st1))
       \<and> reported (calls (client_to_server st2)) = reported (calls (client_to_server st1))
       \<and> reported (calls (server_to_client st2)) = reported (calls (server_to_client st1))
       \<and> inbound (client_to_server st2) = inbound (client_to_server st1)
       \<and> inbound (server_to_client st2) = inbound (server_to_client st1)
       \<and> (RunClientToServer \<in> set after \<longrightarrow>
            at (client_to_server st2) = after_cancel (at (client_to_server st1)))
       \<and> (RunServerToClient \<in> set after \<longrightarrow>
            at (server_to_client st2) = after_cancel (at (server_to_client st1)))"
proof -
  let ?exit = "session_step (client_read, client_write) (server_read, server_write) onerror
      on_client_message on_server_message ExitScope st1"
  obtain cancelled c s w1 where st1: "st1 = Session cancelled c s w1" by (cases st1)
  then have ex: "?exit = Session True c s w1" by simp
  then have cc: "cancel_called ?exit" by simp
  from assms have "st2 = run_session (client_read, client_write) (server_read, server_write)
      onerror on_client_message on_server_message after ?exit"
    by (simp add: mcp_proxy_def run_session_append)
  from run_session_cancelled [OF cc this] ex st1 show ?thesis by simp
qed

text \<open>
  The caller leaves while the client-to-server task is at the send of \<open>R2\<close> and the
  server-to-client task has not received \<open>S1\<close>: both tasks end by the cancellation,
  \<open>R1\<close> stays the only message sent and \<open>S1\<close> stays in its stream.
\<close>

theorem cancellation_completeness_witness:
  "mcp_proxy
     (ReadStream 0 [SessionMessage ''R1'', SessionMessage ''R2''] EndOfStream,
      WriteStream 1 open_send)
     (ReadStream 2 [SessionMessage ''S1''] EndOfStream, WriteStream 3 open_send)
     (Some handle_error) None None
     [RunClientToServer, RunClientToServer, RunClientToServer] []
   = Session False
       (Task (AtSend ''R2'') [] EndOfStream
          [Receive 0, SendCall 3 ''R1'' (Returned ()), Receive 0])
       (Task AtReceive [SessionMessage ''S1''] EndOfStream []) []
   \<and> mcp_proxy
     (ReadStream 0 [SessionMessage ''R1'', SessionMessage ''R2''] EndOfStream,
      WriteStream 1 open_send)
     (ReadStream 2 [SessionMessage ''S1''] EndOfStream, WriteStream 3 open_send)
     (Some handle_error) None None
     ([RunClientToServer, RunClientToServer, RunClientToServer] @ ExitScope #
      [RunServerToClient, RunClientToServer, RunServerToClient]) []
   = Session True
       (Task (Finished Cancelled) [] EndOfStream
          [Receive 0, SendCall 3 ''R1'' (Returned ()), Receive 0, SendCall 3 ''R2'' Cancelled])
       (Task (Finished Cancelled) [SessionMessage ''S1''] EndOfStream [Receive 2]) []
   \<and> sent [Receive 0, SendCall 3 ''R1'' (Returned ()), Receive 0, SendCall 3 ''R2'' Cancelled]
     = sent [Receive 0, SendCall 3 ''R1'' (Returned ()), Receive 0]
   \<and> sent [Receive 2 :: string event] = sent []"
proof -
  let ?c = "(ReadStream 0 [SessionMessage ''R1'', SessionMessage ''R2''] EndOfStream,
      WriteStream 1 open_send :: (string, exn list) write_stream)"
  let ?s = "(ReadStream 2 [SessionMessage ''S1''] EndOfStream,
      WriteStream 3 open_send :: (string, exn list) write_stream)"
  have b: "mcp_proxy ?c ?s (Some handle_error) None None
     [RunClientToServer, RunClientToServer, RunClientToServer] []
   = Session False
       (Task (AtSend ''R2'') [] EndOfStream
          [Receive 0, SendCall 3 ''R1'' (Returned ()), Receive 0])
       (Task AtReceive [SessionMessage ''S1''] EndOfStream []) []"
    by (simp add: mcp_proxy_def open_send_def)
  have a: "mcp_proxy ?c ?s (Some handle_error) None None
     ([RunClientToServer, RunClientToServer, RunClientToServer] @ ExitScope #
      [RunServerToClient, RunClientToServer, RunServerToClient]) []
   = Session True
       (Task (Finished Cancelled) [] EndOfStream
          [Receive 0, SendCall 3 ''R1'' (Returned ()), Receive 0, SendCall 3 ''R2'' Cancelled])
       (Task (Finished Cancelled) [SessionMessage ''S1''] EndOfStream [Receive 2]) []"
    by (simp add: mcp_proxy_def open_send_def)
  from cancellation_completeness [OF b a] a b show ?thesis by simp
qed

subsection \<open>Calls that do not return\<close>

text \<open>
  A call left by the cancellation of the task ends the coroutine there: the \<open>except\<close>
  clauses do not catch it, so the handler is not called and the items \<open>ys\<close> still to come
  are not received.
\<close>

lemma process_item_cancelled_no_report:
  assumes "try_body onerror ws tf x w = (Cancelled, evs, w')"
  shows "process_item onerror ws tf x w = (Cancelled, evs, w')"
  using assms by (simp add: process_item_def)

lemma cancelled_ends_run:
  assumes "process_items onerror rid ws tf xs w = (Returned (), evs1, w1)"
      and "process_item onerror ws tf x w1 = (Cancelled, evs, w2)"
  shows "forward_messages onerror (ReadStream rid (xs @ x # ys) fin) ws tf w =
         (Cancelled, evs1 @ Receive rid # evs, w2)"
  using forward_messages_append [OF assms(1), of "x # ys" fin] assms(2) by simp

lemma cancelled_receive_ends_run:
  assumes "process_items onerror rid ws tf xs w = (Returned (), evs1, w1)"
  shows "forward_messages onerror (ReadStream rid xs ReceiveCancelled) ws tf w =
         (Cancelled, evs1 @ [Receive rid], w1)"
  using forward_messages_append [OF assms(1), of "[]" ReceiveCancelled] by simp

end
